theory Spec2Isabelle
  imports Main "HOL-Library.Sublist"
begin

section \<open>JavaScript values and string primitives\<close>

text \<open>
  The attribute engine of \<^verbatim>\<open>CharacterAttribute.js\<close> works on dynamically typed
  values. The primitive values that reach it are modelled by \<open>jsval\<close>. Numbers are
  modelled on the safe integers: \<open>JNum n\<close> stands for the number \<open>n\<close> when its
  magnitude is at most \<open>2^53 - 1\<close>. On that range every integer is a double of its
  own, \<^verbatim>\<open>ToString\<close> gives its decimal digits and \<^verbatim>\<open>parseInt\<close> reads them back.
  Fractions, larger magnitudes (which \<^verbatim>\<open>ToString\<close> prints in exponent form from
  \<open>10^21\<close> on, and to which \<^verbatim>\<open>parseInt\<close> rounds) and the infinities are outside the
  model: \<open>in_model\<close> says that a value is inside, and the theorems on the decimal
  text of a number (the roll modifier, the lookup by value, the values put into a
  template) assume it. \<open>JNaN\<close> is the not-a-number value that \<^verbatim>\<open>parseInt\<close> produces.
  A string is a list of code units below 256.
\<close>

datatype jsval = JUndefined | JBool bool | JNum int | JNaN | JStr string

definition safe_integer :: "int \<Rightarrow> bool" where
  "safe_integer n = (\<bar>n\<bar> \<le> 9007199254740991)"

fun in_model :: "jsval \<Rightarrow> bool" where
  "in_model (JNum n) = safe_integer n"
| "in_model v = True"

datatype error = TypeError | InvalidExpression

text \<open>
  The outcome of running a piece of the program: a value, a thrown exception, or
  no answer within the recursion depth that was allowed.
\<close>

datatype 'a result = Ok 'a | Throw error | OutOfFuel

fun rbind :: "'a result \<Rightarrow> ('a \<Rightarrow> 'b result) \<Rightarrow> 'b result" where
  "rbind (Ok x) f = f x"
| "rbind (Throw e) f = Throw e"
| "rbind OutOfFuel f = OutOfFuel"

subsection \<open>Number to string and back\<close>

definition digit_char :: "nat \<Rightarrow> char" where
  "digit_char d = ''0123456789'' ! d"

fun show_nat :: "nat \<Rightarrow> string" where
  "show_nat n = (if n < 10 then [digit_char n] else show_nat (n div 10) @ [digit_char (n mod 10)])"

declare show_nat.simps [simp del]

definition show_int :: "int \<Rightarrow> string" where
  "show_int i = (if i < 0 then CHR ''-'' # show_nat (nat (- i)) else show_nat (nat i))"

text \<open>\<^verbatim>\<open>ToString\<close> of the language, as \<^verbatim>\<open>String.prototype.replace\<close> applies it to
  its second argument; on a number it is that of the language for the values in the
  model.\<close>

fun to_string :: "jsval \<Rightarrow> string" where
  "to_string JUndefined = ''undefined''"
| "to_string (JBool b) = (if b then ''true'' else ''false'')"
| "to_string (JNum n) = show_int n"
| "to_string JNaN = ''NaN''"
| "to_string (JStr s) = s"

text \<open>Truthiness, as \<^verbatim>\<open>||\<close> and \<^verbatim>\<open>if\<close> test it.\<close>

fun truthy :: "jsval \<Rightarrow> bool" where
  "truthy JUndefined = False"
| "truthy (JBool b) = b"
| "truthy (JNum n) = (n \<noteq> 0)"
| "truthy JNaN = False"
| "truthy (JStr s) = (s \<noteq> [])"

text \<open>Strict equality \<^verbatim>\<open>===\<close>: same type and same value, and \<^verbatim>\<open>NaN\<close> equals nothing.\<close>

definition strict_eq :: "jsval \<Rightarrow> jsval \<Rightarrow> bool" where
  "strict_eq a b = (a \<noteq> JNaN \<and> a = b)"

definition is_digit :: "char \<Rightarrow> bool" where
  "is_digit c = (c \<in> set ''0123456789'')"

definition digit_val :: "char \<Rightarrow> nat" where
  "digit_val c = of_char c - 48"

text \<open>Value of a digit in a radix up to 16, \<open>None\<close> when the character is no digit
  of that radix.\<close>

definition radix_digit :: "nat \<Rightarrow> char \<Rightarrow> nat option" where
  "radix_digit r c =
     (let n = (of_char c :: nat);
          v = (if 48 \<le> n \<and> n \<le> 57 then Some (n - 48)
               else if 97 \<le> n \<and> n \<le> 102 then Some (n - 87)
               else if 65 \<le> n \<and> n \<le> 70 then Some (n - 55)
               else None)
      in case v of None \<Rightarrow> None | Some d \<Rightarrow> if d < r then Some d else None)"

text \<open>White space and line terminators among the code units below 256.\<close>

definition is_line_terminator :: "char \<Rightarrow> bool" where
  "is_line_terminator c = (c = CHR 0x0A \<or> c = CHR 0x0D)"

definition is_space :: "char \<Rightarrow> bool" where
  "is_space c = (c \<in> set [CHR 0x09, CHR 0x0A, CHR 0x0B, CHR 0x0C, CHR 0x0D, CHR 0x20, CHR 0xA0])"

definition trim_start :: "string \<Rightarrow> string" where
  "trim_start s = dropWhile is_space s"

definition trim :: "string \<Rightarrow> string" where
  "trim s = rev (dropWhile is_space (rev (dropWhile is_space s)))"

definition strip_sign :: "string \<Rightarrow> string" where
  "strip_sign s = (case s of [] \<Rightarrow> [] | c # r \<Rightarrow> if c = CHR ''+'' \<or> c = CHR ''-'' then r else s)"

definition digits1 :: "string \<Rightarrow> bool" where
  "digits1 s = (s \<noteq> [] \<and> list_all is_digit s)"

definition exponent_ok :: "string \<Rightarrow> bool" where
  "exponent_ok s = (case s of [] \<Rightarrow> True
     | c # r \<Rightarrow> (c = CHR ''e'' \<or> c = CHR ''E'') \<and> digits1 (strip_sign r))"

text \<open>\<open>StrUnsignedDecimalLiteral\<close> of the grammar of \<^verbatim>\<open>ToNumber\<close> on strings.\<close>

definition unsigned_decimal :: "string \<Rightarrow> bool" where
  "unsigned_decimal s = (s = ''Infinity'' \<or>
     (let ip = takeWhile is_digit s; r = dropWhile is_digit s
      in case r of [] \<Rightarrow> ip \<noteq> []
         | c # r' \<Rightarrow>
             if c = CHR ''.''
             then (ip \<noteq> [] \<or> takeWhile is_digit r' \<noteq> []) \<and> exponent_ok (dropWhile is_digit r')
             else ip \<noteq> [] \<and> exponent_ok r))"

definition radix_literal :: "string \<Rightarrow> bool" where
  "radix_literal s = (case s of
       c0 # x # ds \<Rightarrow>
         c0 = CHR ''0'' \<and> ds \<noteq> [] \<and>
         (if x = CHR ''x'' \<or> x = CHR ''X'' then list_all (\<lambda>d. radix_digit 16 d \<noteq> None) ds
          else if x = CHR ''o'' \<or> x = CHR ''O'' then list_all (\<lambda>d. radix_digit 8 d \<noteq> None) ds
          else if x = CHR ''b'' \<or> x = CHR ''B'' then list_all (\<lambda>d. radix_digit 2 d \<noteq> None) ds
          else False)
     | _ \<Rightarrow> False)"

text \<open>Whether \<^verbatim>\<open>ToNumber\<close> of a string is a number: the string, trimmed, is empty
  or a \<open>StrNumericLiteral\<close>.\<close>

definition numeric_string :: "string \<Rightarrow> bool" where
  "numeric_string s = (let t = trim s in
     t = [] \<or> radix_literal t \<or> unsigned_decimal (strip_sign t))"

text \<open>The global \<^verbatim>\<open>isNaN\<close>.\<close>

fun isNaN :: "jsval \<Rightarrow> bool" where
  "isNaN JUndefined = True"
| "isNaN (JBool b) = False"
| "isNaN (JNum n) = False"
| "isNaN JNaN = True"
| "isNaN (JStr s) = (\<not> numeric_string s)"

text \<open>The global \<^verbatim>\<open>parseInt\<close> with no radix: leading white space and a sign are
  skipped, a \<^verbatim>\<open>0x\<close> prefix selects radix 16, and the longest prefix of digits is
  read; with no digit the result is \<^verbatim>\<open>NaN\<close>. The value read is that of the language
  as long as it is in the model; beyond, the language rounds to a double.\<close>

definition digits_value :: "nat \<Rightarrow> string \<Rightarrow> nat" where
  "digits_value r ds = foldl (\<lambda>acc c. acc * r + the (radix_digit r c)) 0 ds"

definition parse_int_string :: "string \<Rightarrow> jsval" where
  "parse_int_string s =
     (let t = trim_start s;
          neg = (case t of [] \<Rightarrow> False | c # _ \<Rightarrow> c = CHR ''-'');
          u = strip_sign t;
          hex = (case u of c0 # x # _ \<Rightarrow> c0 = CHR ''0'' \<and> (x = CHR ''x'' \<or> x = CHR ''X'') | _ \<Rightarrow> False);
          r = (if hex then 16 else 10);
          z = takeWhile (\<lambda>c. radix_digit r c \<noteq> None) (if hex then drop 2 u else u)
      in if z = [] then JNaN
         else JNum ((if neg then - 1 else 1) * int (digits_value r z)))"

definition parseInt :: "jsval \<Rightarrow> jsval" where
  "parseInt v = parse_int_string (to_string v)"

subsection \<open>\<^verbatim>\<open>String.prototype.replace\<close> and the two regular expressions\<close>

text \<open>
  The replacement text of \<^verbatim>\<open>replace\<close> is a template: \<^verbatim>\<open>$$\<close> stands for a dollar,
  \<^verbatim>\<open>$&\<close> for the matched text, \<^verbatim>\<open>$`\<close> and \<^verbatim>\<open>$'\<close> for the text before and after
  the match, and \<^verbatim>\<open>$n\<close>, \<^verbatim>\<open>$nn\<close> for a capture group (\<open>GetSubstitution\<close>). A two-digit
  reference beyond the number of groups is read as a one-digit reference followed by
  a digit; a reference to no group stays as it is written.
\<close>

fun get_substitution :: "string \<Rightarrow> string \<Rightarrow> string \<Rightarrow> string list \<Rightarrow> string \<Rightarrow> string" where
  "get_substitution m pre post caps [] = []"
| "get_substitution m pre post caps [c] = [c]"
| "get_substitution m pre post caps (c # d # t) =
     (if c \<noteq> CHR ''$'' then c # get_substitution m pre post caps (d # t)
      else if d = CHR ''$'' then CHR ''$'' # get_substitution m pre post caps t
      else if d = CHR ''&'' then m @ get_substitution m pre post caps t
      else if d = CHR 0x60 then pre @ get_substitution m pre post caps t
      else if d = CHR 0x27 then post @ get_substitution m pre post caps t
      else if is_digit d then
        (case t of
           [] \<Rightarrow>
             if 1 \<le> digit_val d \<and> digit_val d \<le> length caps
             then caps ! (digit_val d - 1)
             else [c, d]
         | e # t' \<Rightarrow>
             if is_digit e \<and> 10 * digit_val d + digit_val e \<le> length caps
             then (if 1 \<le> 10 * digit_val d + digit_val e
                   then caps ! (10 * digit_val d + digit_val e - 1) @ get_substitution m pre post caps t'
                   else c # d # e # get_substitution m pre post caps t')
             else if 1 \<le> digit_val d \<and> digit_val d \<le> length caps
             then caps ! (digit_val d - 1) @ get_substitution m pre post caps (e # t')
             else c # d # get_substitution m pre post caps (e # t'))
      else c # get_substitution m pre post caps (d # t))"

text \<open>\<^verbatim>\<open>s.replace(pat, repl)\<close> with a string pattern: only the first occurrence of
  \<open>pat\<close> is replaced, and there are no capture groups. \<open>pre\<close> is the text already
  passed over.\<close>

fun replace_from :: "string \<Rightarrow> string \<Rightarrow> string \<Rightarrow> string \<Rightarrow> string" where
  "replace_from pre pat repl [] =
     (if pat = [] then pre @ get_substitution pat pre [] [] repl else pre)"
| "replace_from pre pat repl (c # cs) =
     (if take (length pat) (c # cs) = pat
      then pre @ get_substitution pat pre (drop (length pat) (c # cs)) [] repl
               @ drop (length pat) (c # cs)
      else replace_from (pre @ [c]) pat repl cs)"

definition replace_string :: "string \<Rightarrow> string \<Rightarrow> string \<Rightarrow> string" where
  "replace_string pat repl s = replace_from [] pat repl s"

text \<open>
  The regular expression \<^verbatim>\<open>/{{(.*?)}}/\<close> tried at the start of a string. After the two
  opening braces, the lazy group takes as few characters as possible, none of them a
  line terminator, up to the first two closing braces. The result is the keyword and
  the text after the marker.
\<close>

fun scan_marker :: "string \<Rightarrow> (string \<times> string) option" where
  "scan_marker [] = None"
| "scan_marker (c # cs) =
     (if c = CHR ''}'' \<and> (case cs of [] \<Rightarrow> False | d # _ \<Rightarrow> d = CHR ''}'') then Some ([], tl cs)
      else if is_line_terminator c then None
      else (case scan_marker cs of None \<Rightarrow> None | Some (k, r) \<Rightarrow> Some (c # k, r)))"

definition marker_at :: "string \<Rightarrow> (string \<times> string) option" where
  "marker_at s = (case s of
       c1 # c2 # t \<Rightarrow> if c1 = CHR ''{'' \<and> c2 = CHR ''{'' then scan_marker t else None
     | _ \<Rightarrow> None)"

lemma scan_marker_shorter: "scan_marker s = Some (k, r) \<Longrightarrow> length r < length s"
proof (induction s arbitrary: k r)
  case Nil
  then show ?case by simp
next
  case (Cons c cs)
  then show ?case
    by (cases cs) (auto split: if_splits option.splits)
qed

lemma marker_at_shorter: "marker_at s = Some (k, r) \<Longrightarrow> length r < length s"
  by (auto simp: marker_at_def split: list.splits if_splits dest: scan_marker_shorter)

text \<open>\<^verbatim>\<open>/({{(.*?)}})+/\<close> tried at the start of a string: one marker, then greedily
  every marker that follows at once. The result is the matched text and the rest.\<close>

function markers_at :: "string \<Rightarrow> (string \<times> string) option" where
  "markers_at s = (case marker_at s of
       None \<Rightarrow> None
     | Some (k, r) \<Rightarrow>
         (case markers_at r of
            None \<Rightarrow> Some (''{{'' @ k @ ''}}'', r)
          | Some (m, r') \<Rightarrow> Some (''{{'' @ k @ ''}}'' @ m, r')))"
  by pat_completeness auto
termination
  by (relation "measure length") (auto dest: marker_at_shorter)

declare markers_at.simps [simp del]

lemma markers_at_shorter: "markers_at s = Some (m, r) \<Longrightarrow> length r < length s"
proof (induction s arbitrary: m r rule: markers_at.induct)
  case (1 s)
  from "1.prems" obtain k r0 where k: "marker_at s = Some (k, r0)"
    by (subst (asm) markers_at.simps) (auto split: option.splits)
  show ?case
  proof (cases "markers_at r0")
    case None
    with k "1.prems" have "r = r0"
      by (subst (asm) markers_at.simps) simp
    with k show ?thesis by (simp add: marker_at_shorter)
  next
    case (Some p)
    obtain m' r' where p: "p = (m', r')" by (cases p)
    with Some k "1.prems" have "r = r'"
      by (subst (asm) markers_at.simps) simp
    moreover have "length r' < length r0"
      using "1.IH" [OF k refl] Some p by simp
    moreover have "length r0 < length s"
      using k by (rule marker_at_shorter)
    ultimately show ?thesis by simp
  qed
qed

text \<open>\<^verbatim>\<open>s.match(/({{(.*?)}})+/g)\<close>: every match from left to right, the search going
  on after each match; the empty list stands for \<^verbatim>\<open>null\<close>, over which the loop of
  \<^verbatim>\<open>translateOutcome\<close> does not run either.\<close>

function match_all :: "string \<Rightarrow> string list" where
  "match_all [] = []"
| "match_all (c # cs) = (case markers_at (c # cs) of
       Some (m, r) \<Rightarrow> m # match_all r
     | None \<Rightarrow> match_all cs)"
  by pat_completeness auto
termination
  by (relation "measure length") (auto dest: markers_at_shorter)

text \<open>\<^verbatim>\<open>s.replace(/{{(.*?)}}/, repl)\<close>: the leftmost marker is replaced, its keyword
  being capture group 1; a string with no marker is returned as it is.\<close>

fun replace_marker_from :: "string \<Rightarrow> string \<Rightarrow> string \<Rightarrow> string" where
  "replace_marker_from pre repl [] = pre"
| "replace_marker_from pre repl (c # cs) = (case marker_at (c # cs) of
       Some (k, r) \<Rightarrow> pre @ get_substitution (''{{'' @ k @ ''}}'') pre r [k] repl @ r
     | None \<Rightarrow> replace_marker_from (pre @ [c]) repl cs)"

definition replace_marker :: "string \<Rightarrow> string \<Rightarrow> string" where
  "replace_marker repl s = replace_marker_from [] repl s"

text \<open>\<^verbatim>\<open>m.replace(/[{{}}]/g, '')\<close>: every brace is removed.\<close>

definition strip_braces :: "string \<Rightarrow> string" where
  "strip_braces m = filter (\<lambda>c. c \<noteq> CHR ''{'' \<and> c \<noteq> CHR ''}'') m"

text \<open>\<^verbatim>\<open>toLowerCase\<close> on a code unit below 256.\<close>

definition to_lower :: "char \<Rightarrow> char" where
  "to_lower c = (let n = (of_char c :: nat) in
     if (65 \<le> n \<and> n \<le> 90) \<or> (192 \<le> n \<and> n \<le> 222 \<and> n \<noteq> 215) then char_of (n + 32) else c)"

section \<open>Data model\<close>

text \<open>
  Modelled from the spec: the tables are data that the sources do not hold. A row has
  the fields that \<^verbatim>\<open>CharacterAttribute.js\<close> reads from it: \<^verbatim>\<open>outcome\<close>, the integer
  bounds \<^verbatim>\<open>min\<close> and \<^verbatim>\<open>max\<close> of a dice-ranged row, the optional template \<^verbatim>\<open>translate\<close>
  and the optional function \<^verbatim>\<open>extra\<close>, which the specification has as a pure function
  from the template to a text. A field that the object does not have reads as
  \<^verbatim>\<open>undefined\<close>: \<open>JUndefined\<close>, or \<open>None\<close>.
\<close>

record row =
  outcome :: jsval
  min_r :: "int option"
  max_r :: "int option"
  translate :: "string option"
  extra :: "(string \<Rightarrow> string) option"

text \<open>The object \<^verbatim>\<open>{}\<close>, with no field at all.\<close>

definition empty_row :: row where
  "empty_row = \<lparr>outcome = JUndefined, min_r = None, max_r = None, translate = None, extra = None\<rparr>"

record table =
  table_roll :: string
  outcomes :: "row list"

text \<open>Modelled from the spec: the result object of the dice library, which is not part
  of the sources; \<^verbatim>\<open>get('total')\<close> reads \<open>total\<close>, and \<open>faces\<close> are the individual
  dice.\<close>

record dice_result =
  total :: int
  faces :: "int list"

text \<open>What \<^verbatim>\<open>rollResult\<close> of an attribute can hold: nothing, the number that
  \<^verbatim>\<open>randomRow\<close> stores, or the object that \<^verbatim>\<open>rollForRow\<close> stores.\<close>

datatype roll_value = RUndefined | RNumber int | RDice dice_result

record attr =
  priv_tableName :: "string option"
  table :: "table option"
  priv_fetch :: jsval
  priv_data :: "row option"
  rollModifier :: jsval
  rollResult :: roll_value

text \<open>The instance before the constructor has assigned anything.\<close>

definition new_attr :: attr where
  "new_attr = \<lparr>priv_tableName = None, table = None, priv_fetch = JUndefined,
     priv_data = None, rollModifier = JUndefined, rollResult = RUndefined\<rparr>"

text \<open>The argument of the constructor: a table name, or an object whose keys are
  copied onto the instance; a key that is absent reads as \<open>JUndefined\<close>.\<close>

record config =
  cfg_tableName :: string
  cfg_fetch :: jsval
  cfg_rollModifier :: jsval

datatype config_arg = CfgString string | CfgObject config

text \<open>
  What the code takes from outside: the global \<^verbatim>\<open>TABLES\<close>, the dice library's
  \<^verbatim>\<open>Dice.roll\<close>, which consumes randomness and may reject an expression, and
  \<^verbatim>\<open>Math.floor(Math.random() * n)\<close>. \<open>TABLES E k\<close> is the table that \<^verbatim>\<open>TABLES[k]\<close>
  reads, and \<open>None\<close> when it reads \<^verbatim>\<open>undefined\<close>; \<^verbatim>\<open>TABLES\<close> is taken to hold
  tables only, with no key inherited from a prototype. The type \<open>'w\<close> is the state
  of the source of randomness, threaded through every call in the order of the
  program.
\<close>

record 'w env =
  TABLES :: "string \<Rightarrow> table option"
  Dice_roll :: "string \<Rightarrow> 'w \<Rightarrow> (dice_result \<times> 'w) result"
  random_floor :: "nat \<Rightarrow> 'w \<Rightarrow> nat \<times> 'w"

section \<open>The class \<^verbatim>\<open>CharacterAttribute\<close>\<close>

text \<open>\<^verbatim>\<open>static toKey(str)\<close>: white space becomes a dash, then everything is
  lowercased.\<close>

definition toKey :: "string \<Rightarrow> string" where
  "toKey str = map to_lower (map (\<lambda>c. if is_space c then CHR ''-'' else c) str)"

text \<open>\<^verbatim>\<open>set tableName\<close>, \<^verbatim>\<open>set config\<close> and \<^verbatim>\<open>setConfig\<close>.\<close>

definition set_tableName :: "'w env \<Rightarrow> attr \<Rightarrow> string \<Rightarrow> attr" where
  "set_tableName E a name = a\<lparr>priv_tableName := Some (toKey name), table := TABLES E (toKey name)\<rparr>"

definition setConfig :: "'w env \<Rightarrow> attr \<Rightarrow> config_arg \<Rightarrow> attr" where
  "setConfig E a c = (case c of
       CfgString name \<Rightarrow> set_tableName E a name
     | CfgObject cfg \<Rightarrow>
         (set_tableName E a (cfg_tableName cfg))
           \<lparr>priv_fetch := cfg_fetch cfg, rollModifier := cfg_rollModifier cfg\<rparr>)"

text \<open>The getters \<^verbatim>\<open>get fetch\<close> and \<^verbatim>\<open>get data\<close>.\<close>

definition fetch :: "attr \<Rightarrow> jsval" where
  "fetch a = (if truthy (priv_fetch a) then priv_fetch a else JStr ''random'')"

definition data :: "attr \<Rightarrow> row option" where
  "data a = priv_data a"

text \<open>
  \<^verbatim>\<open>find(lookup)\<close>. The callback of \<^verbatim>\<open>forEach\<close> runs on every row: its \<^verbatim>\<open>return\<close>
  ends one call of the callback, not the loop, so \<open>result\<close> is overwritten at every
  row that matches. \<open>None\<close> is the initial \<^verbatim>\<open>false\<close>.
\<close>

definition find_row :: "attr \<Rightarrow> jsval \<Rightarrow> row option result" where
  "find_row a lookup =
     (let lookup' = (if \<not> isNaN lookup then parseInt lookup else lookup)
      in case table a of
           None \<Rightarrow> Throw TypeError
         | Some tbl \<Rightarrow>
             Ok (foldl (\<lambda>result r. if strict_eq lookup' (outcome r) then Some r else result)
                   None (outcomes tbl)))"


text \<open>\<^verbatim>\<open>roll(dice)\<close>: unless \<^verbatim>\<open>rollModifier\<close> is \<^verbatim>\<open>false\<close>, \<^verbatim>\<open>MOD\<close> is replaced in
  the expression, which then goes to the dice library. \<open>roll_expression\<close> is the value
  of the variable \<^verbatim>\<open>dice\<close> at that call.\<close>

definition roll_expression :: "attr \<Rightarrow> string \<Rightarrow> string" where
  "roll_expression a dice =
     (if rollModifier a \<noteq> JBool False
      then replace_string ''MOD'' (to_string (rollModifier a)) dice
      else dice)"

definition roll :: "'w env \<Rightarrow> attr \<Rightarrow> string \<Rightarrow> 'w \<Rightarrow> (dice_result \<times> 'w) result" where
  "roll E a dice w = Dice_roll E (roll_expression a dice) w"

text \<open>\<^verbatim>\<open>randomRow()\<close>: the index is stored in \<^verbatim>\<open>rollResult\<close>; an index outside the
  array reads \<^verbatim>\<open>undefined\<close>, here \<open>None\<close>.\<close>

definition randomRow :: "'w env \<Rightarrow> attr \<Rightarrow> 'w \<Rightarrow> (row option \<times> attr \<times> 'w) result" where
  "randomRow E a w = (case table a of
       None \<Rightarrow> Throw TypeError
     | Some tbl \<Rightarrow>
         (let (i, w') = random_floor E (length (outcomes tbl)) w
          in Ok (if i < length (outcomes tbl) then Some (outcomes tbl ! i) else None,
                 a\<lparr>rollResult := RNumber (int i)\<rparr>, w')))"

text \<open>\<^verbatim>\<open>rollForRow()\<close>: the same loop as in \<^verbatim>\<open>find\<close>, on the bounds of each row.
  A comparison with a bound that is \<^verbatim>\<open>undefined\<close> is false.\<close>

definition in_range :: "int \<Rightarrow> row \<Rightarrow> bool" where
  "in_range t r = (case min_r r of
       None \<Rightarrow> False
     | Some lo \<Rightarrow> t \<ge> lo \<and> (case max_r r of None \<Rightarrow> False | Some hi \<Rightarrow> t \<le> hi))"

definition rollForRow :: "'w env \<Rightarrow> attr \<Rightarrow> 'w \<Rightarrow> (row option \<times> attr \<times> 'w) result" where
  "rollForRow E a w = (case table a of
       None \<Rightarrow> Throw TypeError
     | Some tbl \<Rightarrow>
         rbind (roll E a (table_roll tbl) w) (\<lambda>(res, w').
           Ok (foldl (\<lambda>result r. if in_range (total res) r then Some r else result)
                 None (outcomes tbl),
               a\<lparr>rollResult := RDice res\<rparr>, w')))"

text \<open>\<^verbatim>\<open>toString()\<close>.\<close>

definition toString :: "attr \<Rightarrow> jsval result" where
  "toString a = (case data a of
       None \<Rightarrow> Throw TypeError
     | Some d \<Rightarrow>
         (case translate d of
            None \<Rightarrow> Ok (outcome d)
          | Some t \<Rightarrow> if t \<noteq> [] then Ok (JStr t) else Ok (outcome d)))"

text \<open>
  \<^verbatim>\<open>translateOutcome(outcome)\<close>. \<open>sub\<close> stands for \<^verbatim>\<open>new CharacterAttribute(match)\<close>,
  the recursive construction of another attribute. \<open>replacement\<close> is the value that
  the body of the loop assigns to the variable of that name, for the keyword \<open>match\<close>
  and the current value of the variable \<^verbatim>\<open>outcome\<close>.
\<close>

definition replacement ::
  "(string \<Rightarrow> 'w \<Rightarrow> (attr \<times> 'w) result) \<Rightarrow> 'w env \<Rightarrow> attr \<Rightarrow> string \<Rightarrow> string \<Rightarrow> 'w
     \<Rightarrow> (jsval \<times> 'w) result" where
  "replacement sub E a match outcome_text w =
     (if TABLES E match \<noteq> None
      then rbind (sub match w) (\<lambda>(t, w'). rbind (toString t) (\<lambda>v. Ok (v, w')))
      else if match = ''extra''
      then (case data a of
              None \<Rightarrow> Throw TypeError
            | Some d \<Rightarrow>
                (case extra d of
                   Some f \<Rightarrow> Ok (JStr (f outcome_text), w)
                 | None \<Rightarrow> rbind (Dice_roll E match w) (\<lambda>(res, w'). Ok (JNum (total res), w'))))
      else rbind (Dice_roll E match w) (\<lambda>(res, w'). Ok (JNum (total res), w')))"

fun translate_loop ::
  "(string \<Rightarrow> 'w \<Rightarrow> (attr \<times> 'w) result) \<Rightarrow> 'w env \<Rightarrow> attr \<Rightarrow> string list \<Rightarrow> string \<Rightarrow> 'w
     \<Rightarrow> (string \<times> 'w) result" where
  "translate_loop sub E a [] outcome_text w = Ok (outcome_text, w)"
| "translate_loop sub E a (m # ms) outcome_text w =
     rbind (replacement sub E a (strip_braces m) outcome_text w) (\<lambda>(v, w').
       translate_loop sub E a ms (replace_marker (to_string v) outcome_text) w')"

definition translateOutcome ::
  "(string \<Rightarrow> 'w \<Rightarrow> (attr \<times> 'w) result) \<Rightarrow> 'w env \<Rightarrow> attr \<Rightarrow> string \<Rightarrow> 'w
     \<Rightarrow> (string \<times> 'w) result" where
  "translateOutcome sub E a outcome_text w =
     translate_loop sub E a (match_all outcome_text) outcome_text w"

text \<open>
  \<^verbatim>\<open>set data(data)\<close>. \<^verbatim>\<open>Object.assign({}, data)\<close> makes a new object with the fields
  of the row, and \<^verbatim>\<open>{}\<close> when \<^verbatim>\<open>data\<close> is \<^verbatim>\<open>false\<close> or \<^verbatim>\<open>undefined\<close> (here \<open>None\<close>). A
  template that is a non-empty string is translated, with \<^verbatim>\<open>_data\<close> already
  assigned.
\<close>

definition set_data ::
  "(string \<Rightarrow> 'w \<Rightarrow> (attr \<times> 'w) result) \<Rightarrow> 'w env \<Rightarrow> attr \<Rightarrow> row option \<Rightarrow> 'w
     \<Rightarrow> (attr \<times> 'w) result" where
  "set_data sub E a d w =
     (let copy = (case d of None \<Rightarrow> empty_row | Some r \<Rightarrow> r);
          a1 = a\<lparr>priv_data := Some copy\<rparr>
      in case translate copy of
           None \<Rightarrow> Ok (a1, w)
         | Some t \<Rightarrow>
             if t \<noteq> []
             then rbind (translateOutcome sub E a1 t w) (\<lambda>(s, w').
                    Ok (a1\<lparr>priv_data := Some (copy\<lparr>translate := Some s\<rparr>)\<rparr>, w'))
             else Ok (a1, w))"

text \<open>\<^verbatim>\<open>generate()\<close>.\<close>

definition generate ::
  "(string \<Rightarrow> 'w \<Rightarrow> (attr \<times> 'w) result) \<Rightarrow> 'w env \<Rightarrow> attr \<Rightarrow> 'w \<Rightarrow> (attr \<times> 'w) result" where
  "generate sub E a w =
     rbind (if \<not> strict_eq (fetch a) (JStr ''random'')
            then rbind (find_row a (fetch a)) (\<lambda>found. set_data sub E a found w)
            else Ok (a, w))
       (\<lambda>(a1, w1).
          if data a1 \<noteq> None then Ok (a1, w1)
          else (case table a1 of
                  None \<Rightarrow> Throw TypeError
                | Some tbl \<Rightarrow>
                    if table_roll tbl = ''random''
                    then rbind (randomRow E a1 w1) (\<lambda>(r, a2, w2). set_data sub E a2 r w2)
                    else rbind (rollForRow E a1 w1) (\<lambda>(r, a2, w2). set_data sub E a2 r w2)))"

text \<open>
  The constructor: \<^verbatim>\<open>setConfig(config)\<close>, then \<^verbatim>\<open>generate()\<close>. The first argument
  bounds how deep constructors may nest through \<^verbatim>\<open>translateOutcome\<close>; the program
  itself has no such bound, and a chain of tables that refer to each other in a cycle
  makes it recurse without end.
\<close>

primrec CharacterAttribute ::
  "nat \<Rightarrow> 'w env \<Rightarrow> config_arg \<Rightarrow> 'w \<Rightarrow> (attr \<times> 'w) result" where
  "CharacterAttribute 0 E c w = OutOfFuel"
| "CharacterAttribute (Suc n) E c w =
     generate (\<lambda>k. CharacterAttribute n E (CfgString k)) E (setConfig E new_attr c) w"

section \<open>The class on a store of objects\<close>

text \<open>
  In the program a row is an object that the table, and whoever has read the table,
  refer to; \<^verbatim>\<open>Object.assign({}, data)\<close> makes a new object, and
  \<^verbatim>\<open>this._data.translate = ...\<close> writes into an object. To say which object is
  written, the methods are given a second time on a store: a reference is a number,
  the store maps the references in use to objects, and \<open>fresh\<close> is the next
  reference that \<open>alloc\<close> hands out. A table holds the references of its rows, and
  so does \<^verbatim>\<open>_data\<close>. Every method returns the store it leaves behind, also when
  it throws.
\<close>

type_synonym ref = nat

record store =
  objs :: "ref \<Rightarrow> row option"
  fresh :: ref

definition alloc :: "row \<Rightarrow> store \<Rightarrow> ref \<times> store" where
  "alloc r h = (fresh h, h\<lparr>objs := (objs h)(fresh h \<mapsto> r), fresh := Suc (fresh h)\<rparr>)"

text \<open>Reading the fields of the object behind a reference.\<close>

definition deref :: "store \<Rightarrow> ref \<Rightarrow> row" where
  "deref h p = (case objs h p of None \<Rightarrow> empty_row | Some r \<Rightarrow> r)"

record table_s =
  table_roll_s :: string
  outcomes_s :: "ref list"

record attr_s =
  tableName_s :: "string option"
  table_of_s :: "table_s option"
  fetch_of_s :: jsval
  data_s :: "ref option"
  rollModifier_s :: jsval
  rollResult_s :: roll_value

definition new_attr_s :: attr_s where
  "new_attr_s = \<lparr>tableName_s = None, table_of_s = None, fetch_of_s = JUndefined,
     data_s = None, rollModifier_s = JUndefined, rollResult_s = RUndefined\<rparr>"

record 'w env_s =
  TABLES_s :: "string \<Rightarrow> table_s option"
  Dice_s :: "string \<Rightarrow> 'w \<Rightarrow> (dice_result \<times> 'w) result"
  floor_s :: "nat \<Rightarrow> 'w \<Rightarrow> nat \<times> 'w"

definition setConfig_s :: "'w env_s \<Rightarrow> attr_s \<Rightarrow> config_arg \<Rightarrow> attr_s" where
  "setConfig_s E a c = (case c of
       CfgString name \<Rightarrow>
         a\<lparr>tableName_s := Some (toKey name), table_of_s := TABLES_s E (toKey name)\<rparr>
     | CfgObject cfg \<Rightarrow>
         a\<lparr>tableName_s := Some (toKey (cfg_tableName cfg)),
           table_of_s := TABLES_s E (toKey (cfg_tableName cfg)),
           fetch_of_s := cfg_fetch cfg, rollModifier_s := cfg_rollModifier cfg\<rparr>)"

definition fetch_s :: "attr_s \<Rightarrow> jsval" where
  "fetch_s a = (if truthy (fetch_of_s a) then fetch_of_s a else JStr ''random'')"

definition find_s :: "store \<Rightarrow> attr_s \<Rightarrow> jsval \<Rightarrow> ref option result" where
  "find_s h a lookup =
     (let lookup' = (if \<not> isNaN lookup then parseInt lookup else lookup)
      in case table_of_s a of
           None \<Rightarrow> Throw TypeError
         | Some tbl \<Rightarrow>
             Ok (foldl (\<lambda>result p. if strict_eq lookup' (outcome (deref h p)) then Some p else result)
                   None (outcomes_s tbl)))"

definition roll_s :: "'w env_s \<Rightarrow> attr_s \<Rightarrow> string \<Rightarrow> 'w \<Rightarrow> (dice_result \<times> 'w) result" where
  "roll_s E a dice w =
     Dice_s E (if rollModifier_s a \<noteq> JBool False
               then replace_string ''MOD'' (to_string (rollModifier_s a)) dice
               else dice) w"

definition randomRow_s :: "'w env_s \<Rightarrow> attr_s \<Rightarrow> 'w \<Rightarrow> (ref option \<times> attr_s \<times> 'w) result" where
  "randomRow_s E a w = (case table_of_s a of
       None \<Rightarrow> Throw TypeError
     | Some tbl \<Rightarrow>
         (let (i, w') = floor_s E (length (outcomes_s tbl)) w
          in Ok (if i < length (outcomes_s tbl) then Some (outcomes_s tbl ! i) else None,
                 a\<lparr>rollResult_s := RNumber (int i)\<rparr>, w')))"

definition rollForRow_s ::
  "'w env_s \<Rightarrow> store \<Rightarrow> attr_s \<Rightarrow> 'w \<Rightarrow> (ref option \<times> attr_s \<times> 'w) result" where
  "rollForRow_s E h a w = (case table_of_s a of
       None \<Rightarrow> Throw TypeError
     | Some tbl \<Rightarrow>
         rbind (roll_s E a (table_roll_s tbl) w) (\<lambda>(res, w').
           Ok (foldl (\<lambda>result p. if in_range (total res) (deref h p) then Some p else result)
                 None (outcomes_s tbl),
               a\<lparr>rollResult_s := RDice res\<rparr>, w')))"

definition toString_s :: "store \<Rightarrow> attr_s \<Rightarrow> jsval result" where
  "toString_s h a = (case data_s a of
       None \<Rightarrow> Throw TypeError
     | Some p \<Rightarrow>
         (case translate (deref h p) of
            None \<Rightarrow> Ok (outcome (deref h p))
          | Some t \<Rightarrow> if t \<noteq> [] then Ok (JStr t) else Ok (outcome (deref h p))))"

definition replacement_s ::
  "(string \<Rightarrow> store \<Rightarrow> 'w \<Rightarrow> store \<times> (attr_s \<times> 'w) result) \<Rightarrow> 'w env_s \<Rightarrow> store \<Rightarrow> attr_s
     \<Rightarrow> string \<Rightarrow> string \<Rightarrow> 'w \<Rightarrow> store \<times> (jsval \<times> 'w) result" where
  "replacement_s sub E h a match outcome_text w =
     (if TABLES_s E match \<noteq> None
      then (case sub match h w of
              (h', r) \<Rightarrow> (h', rbind r (\<lambda>(t, w'). rbind (toString_s h' t) (\<lambda>v. Ok (v, w')))))
      else if match = ''extra''
      then (case data_s a of
              None \<Rightarrow> (h, Throw TypeError)
            | Some p \<Rightarrow>
                (case extra (deref h p) of
                   Some f \<Rightarrow> (h, Ok (JStr (f outcome_text), w))
                 | None \<Rightarrow> (h, rbind (Dice_s E match w) (\<lambda>(res, w'). Ok (JNum (total res), w')))))
      else (h, rbind (Dice_s E match w) (\<lambda>(res, w'). Ok (JNum (total res), w'))))"

fun translate_loop_s ::
  "(string \<Rightarrow> store \<Rightarrow> 'w \<Rightarrow> store \<times> (attr_s \<times> 'w) result) \<Rightarrow> 'w env_s \<Rightarrow> store \<Rightarrow> attr_s
     \<Rightarrow> string list \<Rightarrow> string \<Rightarrow> 'w \<Rightarrow> store \<times> (string \<times> 'w) result" where
  "translate_loop_s sub E h a [] outcome_text w = (h, Ok (outcome_text, w))"
| "translate_loop_s sub E h a (m # ms) outcome_text w =
     (case replacement_s sub E h a (strip_braces m) outcome_text w of
        (h', Ok (v, w')) \<Rightarrow>
          translate_loop_s sub E h' a ms (replace_marker (to_string v) outcome_text) w'
      | (h', Throw e) \<Rightarrow> (h', Throw e)
      | (h', OutOfFuel) \<Rightarrow> (h', OutOfFuel))"

definition translateOutcome_s ::
  "(string \<Rightarrow> store \<Rightarrow> 'w \<Rightarrow> store \<times> (attr_s \<times> 'w) result) \<Rightarrow> 'w env_s \<Rightarrow> store \<Rightarrow> attr_s
     \<Rightarrow> string \<Rightarrow> 'w \<Rightarrow> store \<times> (string \<times> 'w) result" where
  "translateOutcome_s sub E h a outcome_text w =
     translate_loop_s sub E h a (match_all outcome_text) outcome_text w"

text \<open>
  \<^verbatim>\<open>set data(data)\<close> on the store: the copy is a new object, \<^verbatim>\<open>_data\<close> refers to it, and
  the translated template is written into the object that \<^verbatim>\<open>_data\<close> refers to.
\<close>

definition set_data_s ::
  "(string \<Rightarrow> store \<Rightarrow> 'w \<Rightarrow> store \<times> (attr_s \<times> 'w) result) \<Rightarrow> 'w env_s \<Rightarrow> store \<Rightarrow> attr_s
     \<Rightarrow> ref option \<Rightarrow> 'w \<Rightarrow> store \<times> (attr_s \<times> 'w) result" where
  "set_data_s sub E h a d w =
     (case alloc (case d of None \<Rightarrow> empty_row | Some p \<Rightarrow> deref h p) h of
        (n, h1) \<Rightarrow>
          (let a1 = a\<lparr>data_s := Some n\<rparr>
           in case translate (deref h1 n) of
                None \<Rightarrow> (h1, Ok (a1, w))
              | Some t \<Rightarrow>
                  if t \<noteq> []
                  then (case translateOutcome_s sub E h1 a1 t w of
                          (h2, Ok (s, w')) \<Rightarrow>
                            (h2\<lparr>objs := (objs h2)(n \<mapsto> (deref h2 n)\<lparr>translate := Some s\<rparr>)\<rparr>,
                             Ok (a1, w'))
                        | (h2, Throw e) \<Rightarrow> (h2, Throw e)
                        | (h2, OutOfFuel) \<Rightarrow> (h2, OutOfFuel))
                  else (h1, Ok (a1, w))))"

definition generate_s ::
  "(string \<Rightarrow> store \<Rightarrow> 'w \<Rightarrow> store \<times> (attr_s \<times> 'w) result) \<Rightarrow> 'w env_s \<Rightarrow> store \<Rightarrow> attr_s
     \<Rightarrow> 'w \<Rightarrow> store \<times> (attr_s \<times> 'w) result" where
  "generate_s sub E h a w =
     (case (if \<not> strict_eq (fetch_s a) (JStr ''random'')
            then (case find_s h a (fetch_s a) of
                    Ok found \<Rightarrow> set_data_s sub E h a found w
                  | Throw e \<Rightarrow> (h, Throw e)
                  | OutOfFuel \<Rightarrow> (h, OutOfFuel))
            else (h, Ok (a, w))) of
        (h1, Ok (a1, w1)) \<Rightarrow>
          if data_s a1 \<noteq> None then (h1, Ok (a1, w1))
          else (case table_of_s a1 of
                  None \<Rightarrow> (h1, Throw TypeError)
                | Some tbl \<Rightarrow>
                    (case (if table_roll_s tbl = ''random'' then randomRow_s E a1 w1
                           else rollForRow_s E h1 a1 w1) of
                       Ok (r, a2, w2) \<Rightarrow> set_data_s sub E h1 a2 r w2
                     | Throw e \<Rightarrow> (h1, Throw e)
                     | OutOfFuel \<Rightarrow> (h1, OutOfFuel)))
      | (h1, Throw e) \<Rightarrow> (h1, Throw e)
      | (h1, OutOfFuel) \<Rightarrow> (h1, OutOfFuel))"

primrec CharacterAttribute_s ::
  "nat \<Rightarrow> 'w env_s \<Rightarrow> config_arg \<Rightarrow> store \<Rightarrow> 'w \<Rightarrow> store \<times> (attr_s \<times> 'w) result" where
  "CharacterAttribute_s 0 E c h w = (h, OutOfFuel)"
| "CharacterAttribute_s (Suc n) E c h w =
     generate_s (\<lambda>k. CharacterAttribute_s n E (CfgString k)) E h (setConfig_s E new_attr_s c) w"

text \<open>What a run may do to the store: hand out new references, and leave every object
  that was there before as it was.\<close>

definition preserved :: "store \<Rightarrow> store \<Rightarrow> bool" where
  "preserved h h' = (fresh h \<le> fresh h' \<and> (\<forall>p. p < fresh h \<longrightarrow> objs h' p = objs h p))"

section \<open>Expansion as the specification words it\<close>

text \<open>
  The specification describes placeholder expansion on a template that is a sequence
  of texts and markers: from left to right, each marker is replaced by a value chosen
  by precedence, a table first, then the row's \<^verbatim>\<open>extra\<close> function, then a roll of the
  dice. The definitions of this section follow those words, to be compared with
  \<open>translateOutcome\<close>. A template is given by its pieces: the pairs of a text and the
  keyword of the marker that follows it, and the text after the last marker.
\<close>

fun render :: "(string \<times> string) list \<Rightarrow> string \<Rightarrow> string" where
  "render [] rest = rest"
| "render ((t, k) # segs) rest = t @ ''{{'' @ k @ ''}}'' @ render segs rest"

text \<open>The value for one keyword; \<open>template_now\<close> is what the \<^verbatim>\<open>extra\<close> function is
  called with.\<close>

definition spec_value ::
  "(string \<Rightarrow> 'w \<Rightarrow> (attr \<times> 'w) result) \<Rightarrow> 'w env \<Rightarrow> row \<Rightarrow> string \<Rightarrow> string \<Rightarrow> 'w
     \<Rightarrow> (jsval \<times> 'w) result" where
  "spec_value sub E d keyword template_now w =
     (case TABLES E keyword of
        Some tbl \<Rightarrow> rbind (sub keyword w) (\<lambda>(t, w'). rbind (toString t) (\<lambda>v. Ok (v, w')))
      | None \<Rightarrow>
          (case (if keyword = ''extra'' then extra d else None) of
             Some f \<Rightarrow> Ok (JStr (f template_now), w)
           | None \<Rightarrow> rbind (Dice_roll E keyword w) (\<lambda>(res, w'). Ok (JNum (total res), w'))))"

text \<open>
  Expansion from left to right. \<open>done\<close> is the part of the result that is finished:
  the texts passed so far with the values put in. The \<^verbatim>\<open>extra\<close> function is called
  with the template as it stands at that moment, the finished part followed by the
  pieces still to come.
\<close>

fun expand ::
  "(string \<Rightarrow> 'w \<Rightarrow> (attr \<times> 'w) result) \<Rightarrow> 'w env \<Rightarrow> row \<Rightarrow> string \<Rightarrow> (string \<times> string) list
     \<Rightarrow> string \<Rightarrow> 'w \<Rightarrow> (string \<times> 'w) result" where
  "expand sub E d done [] rest w = Ok (done @ rest, w)"
| "expand sub E d done ((t, k) # segs) rest w =
     rbind (spec_value sub E d k (done @ render ((t, k) # segs) rest) w) (\<lambda>(v, w').
       expand sub E d (done @ t @ to_string v) segs rest w')"

text \<open>
  The templates on which the two agree. No text before a marker holds two adjacent
  opening braces or ends with an opening brace (\<open>brace_safe\<close>), and the text after the
  last marker holds no two adjacent opening braces; no keyword holds a brace or a line
  terminator; two markers are never adjacent.
\<close>

fun brace_safe :: "string \<Rightarrow> bool" where
  "brace_safe [] = True"
| "brace_safe [c] = (c \<noteq> CHR ''{'')"
| "brace_safe (c # d # t) = ((c \<noteq> CHR ''{'' \<or> d \<noteq> CHR ''{'') \<and> brace_safe (d # t))"

definition keyword_ok :: "string \<Rightarrow> bool" where
  "keyword_ok k = list_all (\<lambda>c. c \<noteq> CHR ''{'' \<and> c \<noteq> CHR ''}'' \<and> \<not> is_line_terminator c) k"

definition well_formed :: "(string \<times> string) list \<Rightarrow> string \<Rightarrow> bool" where
  "well_formed segs rest =
     (list_all (\<lambda>(t, k). brace_safe t \<and> keyword_ok k) segs \<and> \<not> sublist ''{{'' rest \<and>
      list_all (\<lambda>(t, k). t \<noteq> []) (tl segs))"

text \<open>
  The values on which the two agree, checked along the expansion: a value is in the
  model and its text holds no dollar sign, which \<^verbatim>\<open>replace\<close> would read as a pattern,
  and the text of a value that a further marker follows is \<open>brace_safe\<close>.
\<close>

fun plain_values ::
  "(string \<Rightarrow> 'w \<Rightarrow> (attr \<times> 'w) result) \<Rightarrow> 'w env \<Rightarrow> row \<Rightarrow> string \<Rightarrow> (string \<times> string) list
     \<Rightarrow> string \<Rightarrow> 'w \<Rightarrow> bool" where
  "plain_values sub E d done [] rest w = True"
| "plain_values sub E d done ((t, k) # segs) rest w =
     (case spec_value sub E d k (done @ render ((t, k) # segs) rest) w of
        Ok (v, w') \<Rightarrow>
          in_model v \<and> CHR ''$'' \<notin> set (to_string v) \<and> (segs = [] \<or> brace_safe (to_string v)) \<and>
          plain_values sub E d (done @ t @ to_string v) segs rest w'
      | Throw e \<Rightarrow> True
      | OutOfFuel \<Rightarrow> True)"

section \<open>Sample tables\<close>

text \<open>
  A small table store and a source of randomness, on which the theorems below are
  instantiated. The state of the sample source is the list of numbers still to come:
  \<open>random_floor\<close> and \<open>Dice_roll\<close> each take the next one, as an index reduced to the
  length of the array and as the total of the roll.
\<close>

definition plain_row :: "string \<Rightarrow> row" where
  "plain_row s = \<lparr>outcome = JStr s, min_r = None, max_r = None, translate = None, extra = None\<rparr>"

definition ranged_row :: "string \<Rightarrow> int \<Rightarrow> int \<Rightarrow> row" where
  "ranged_row s lo hi =
     \<lparr>outcome = JStr s, min_r = Some lo, max_r = Some hi, translate = None, extra = None\<rparr>"

definition race_table :: table where
  "race_table = \<lparr>table_roll = ''random'', outcomes = [plain_row ''Elf'', plain_row ''Dwarf'']\<rparr>"

definition background_table :: table where
  "background_table = \<lparr>table_roll = ''1d100'',
     outcomes = [ranged_row ''Peasant'' 1 50, ranged_row ''Noble'' 52 100]\<rparr>"

definition class_table :: table where
  "class_table = \<lparr>table_roll = ''1d100'',
     outcomes = [ranged_row ''Fighter'' 1 50, ranged_row ''Wizard'' 40 100]\<rparr>"

definition origin_table :: table where
  "origin_table = \<lparr>table_roll = ''1d100'',
     outcomes = [ranged_row ''Human'' 1 50, ranged_row ''Elf'' 51 75, ranged_row ''Human'' 76 100]\<rparr>"

definition age_table :: table where
  "age_table = \<lparr>table_roll = ''random'', outcomes = [plain_row ''20'', plain_row ''30'']\<rparr>"

text \<open>A row whose template refers to the table of homes, rolls a die and calls its
  own \<^verbatim>\<open>extra\<close>.\<close>

definition birth_row :: row where
  "birth_row = \<lparr>outcome = JStr ''Birth'', min_r = None, max_r = None,
     translate = Some ''Born in a {{home}}, child {{1d4}} {{extra}}'',
     extra = Some (\<lambda>s. ''<'' @ s @ ''>'')\<rparr>"

definition home_table :: table where
  "home_table = \<lparr>table_roll = ''random'', outcomes = [plain_row ''Hut'', plain_row ''Castle'']\<rparr>"

definition birth_table :: table where
  "birth_table = \<lparr>table_roll = ''random'', outcomes = [birth_row]\<rparr>"

definition sample_tables :: "string \<Rightarrow> table option" where
  "sample_tables = [''race'' \<mapsto> race_table, ''background'' \<mapsto> background_table,
     ''class'' \<mapsto> class_table, ''origin'' \<mapsto> origin_table, ''age'' \<mapsto> age_table,
     ''home'' \<mapsto> home_table, ''birth'' \<mapsto> birth_table]"

definition sample_env :: "nat list env" where
  "sample_env = \<lparr>TABLES = sample_tables,
     Dice_roll = (\<lambda>e w. case w of
        [] \<Rightarrow> Throw InvalidExpression
      | x # xs \<Rightarrow> Ok (\<lparr>total = int x, faces = [int x]\<rparr>, xs)),
     random_floor = (\<lambda>n w. case w of
        [] \<Rightarrow> (0, [])
      | x # xs \<Rightarrow> (if n = 0 then 0 else x mod n, xs))\<rparr>"

text \<open>The same tables of homes and births on a store, the rows at the references 0 to 2.\<close>

definition sample_store :: store where
  "sample_store = \<lparr>objs = [0 \<mapsto> plain_row ''Hut'', 1 \<mapsto> plain_row ''Castle'', 2 \<mapsto> birth_row],
     fresh = 3\<rparr>"

definition sample_env_s :: "nat list env_s" where
  "sample_env_s = \<lparr>
     TABLES_s = [''home'' \<mapsto> \<lparr>table_roll_s = ''random'', outcomes_s = [0, 1]\<rparr>,
                 ''birth'' \<mapsto> \<lparr>table_roll_s = ''random'', outcomes_s = [2]\<rparr>],
     Dice_s = Dice_roll sample_env, floor_s = random_floor sample_env\<rparr>"

section \<open>Facts about the string primitives\<close>

lemma get_substitution_plain:
  "CHR ''$'' \<notin> set repl \<Longrightarrow> get_substitution m pre post caps repl = repl"
  by (induction m pre post caps repl rule: get_substitution.induct) auto

lemma digit_char_in: "d < 10 \<Longrightarrow> digit_char d \<in> set ''0123456789''"
  unfolding digit_char_def by (rule nth_mem) simp

lemma show_nat_digits: "set (show_nat n) \<subseteq> set ''0123456789''"
proof (induction n rule: show_nat.induct)
  case (1 n)
  show ?case
  proof (cases "n < 10")
    case True
    then show ?thesis using digit_char_in [of n] by (subst show_nat.simps) simp
  next
    case False
    have "n mod 10 < 10" by simp
    then have "digit_char (n mod 10) \<in> set ''0123456789''" by (rule digit_char_in)
    with False "1.IH" show ?thesis by (subst show_nat.simps) simp
  qed
qed

lemma show_int_no_dollar: "CHR ''$'' \<notin> set (show_int n)"
  using show_nat_digits by (auto simp: show_int_def)

lemma to_string_no_dollar: "(\<And>s. v \<noteq> JStr s) \<Longrightarrow> CHR ''$'' \<notin> set (to_string v)"
  by (cases v) (auto simp: show_int_no_dollar)

lemma take_pat_iff: "take (length pat) s = pat \<longleftrightarrow> prefix pat s"
  by (metis append_eq_conv_conj prefix_def take_is_prefix)

lemma replace_from_first:
  "pat \<noteq> [] \<Longrightarrow> \<not> sublist pat (u @ butlast pat) \<Longrightarrow>
   replace_from pre pat repl (u @ pat @ v) = pre @ u @ get_substitution pat (pre @ u) v [] repl @ v"
proof (induction u arbitrary: pre)
  case Nil
  then obtain c cs where e: "pat @ v = c # cs" by (cases pat) auto
  have t: "take (length pat) (c # cs) = pat" and d: "drop (length pat) (c # cs) = v"
    using e by (metis append_eq_conv_conj)+
  show ?case by (simp add: e t d)
next
  case (Cons x u)
  have np: "\<not> prefix pat ((x # u) @ butlast pat)" and ns: "\<not> sublist pat (u @ butlast pat)"
    using Cons.prems(2) by (auto simp: sublist_Cons_right)
  have "\<not> prefix pat ((x # u) @ pat @ v)"
  proof
    assume a: "prefix pat ((x # u) @ pat @ v)"
    have b: "prefix ((x # u) @ butlast pat) ((x # u) @ pat @ v)"
      using Cons.prems(1) by (metis append_butlast_last_id prefix_def append.assoc same_prefix_prefix)
    have "length pat \<le> length ((x # u) @ butlast pat)" by simp
    with a b have "prefix pat ((x # u) @ butlast pat)" by (rule prefix_length_prefix)
    with np show False ..
  qed
  then have "take (length pat) (x # (u @ pat @ v)) \<noteq> pat" by (simp add: take_pat_iff)
  then show ?case using Cons.IH [OF Cons.prems(1) ns, of "pre @ [x]"] by simp
qed

lemma replace_from_absent:
  "pat \<noteq> [] \<Longrightarrow> \<not> sublist pat s \<Longrightarrow> replace_from pre pat repl s = pre @ s"
proof (induction s arbitrary: pre)
  case Nil then show ?case by simp
next
  case (Cons c cs)
  then have "\<not> prefix pat (c # cs)" "\<not> sublist pat cs" by (auto simp: sublist_Cons_right)
  then show ?case using Cons.IH [of "pre @ [c]"] Cons.prems(1) by (simp add: take_pat_iff)
qed

lemma foldl_last_match:
  "foldl (\<lambda>result r. if P r then Some r else result) None xs = List.find P (rev xs)"
  by (induction xs rule: rev_induct) auto

section \<open>Rolling with a modifier\<close>

lemma roll_expression_first:
  assumes "rollModifier a \<noteq> JBool False" and "\<not> sublist ''MOD'' (pre @ ''MO'')"
  shows "roll_expression a (pre @ ''MOD'' @ post) =
         pre @ get_substitution ''MOD'' pre post [] (to_string (rollModifier a)) @ post"
proof -
  have "\<not> sublist ''MOD'' (pre @ butlast ''MOD'')" using assms(2) by simp
  then have "replace_from [] ''MOD'' (to_string (rollModifier a)) (pre @ ''MOD'' @ post) =
      [] @ pre @ get_substitution ''MOD'' ([] @ pre) post [] (to_string (rollModifier a)) @ post"
    by (intro replace_from_first) simp_all
  with assms(1) show ?thesis by (simp add: roll_expression_def replace_string_def)
qed

text \<open>
  Claim C5, as the code has it. An attribute whose \<^verbatim>\<open>rollModifier\<close> is the integer \<open>n\<close>,
  a safe integer, rolls an expression in which the first \<^verbatim>\<open>MOD\<close> token has been replaced
  by the decimal text of \<open>n\<close>, sign included, and nothing else has changed: with \<open>-2\<close> the
  expression \<^verbatim>\<open>1d6+MOD\<close> is rolled as \<^verbatim>\<open>1d6+-2\<close>. The text after the first token is
  passed on as it is, also when it holds further tokens.
\<close>

theorem C5_roll_substitutes_decimal_text:
  assumes "rollModifier a = JNum n" and "safe_integer n"
    and "\<not> sublist ''MOD'' (pre @ ''MO'')"
  shows "roll_expression a (pre @ ''MOD'' @ post) = pre @ show_int n @ post \<and>
         roll E a (pre @ ''MOD'' @ post) w = Dice_roll E (pre @ show_int n @ post) w"
proof -
  have "rollModifier a \<noteq> JBool False" using assms(1) by simp
  then have "roll_expression a (pre @ ''MOD'' @ post) =
      pre @ get_substitution ''MOD'' pre post [] (to_string (rollModifier a)) @ post"
    using assms(3) by (rule roll_expression_first)
  then have "roll_expression a (pre @ ''MOD'' @ post) = pre @ show_int n @ post"
    using assms(1) by (simp add: get_substitution_plain show_int_no_dollar)
  then show ?thesis by (simp add: roll_def)
qed

theorem C5_witness:
  "roll_expression (new_attr\<lparr>rollModifier := JNum (- 2)\<rparr>) ''1d6+MOD'' = ''1d6+-2'' \<and>
   roll sample_env (new_attr\<lparr>rollModifier := JNum (- 2)\<rparr>) ''1d6+MOD'' [3] =
     Dice_roll sample_env ''1d6+-2'' [3]"
proof -
  have h1: "rollModifier (new_attr\<lparr>rollModifier := JNum (- 2)\<rparr>) = JNum (- 2)" by simp
  have h2: "safe_integer (- 2)" by (simp add: safe_integer_def)
  have h3: "\<not> sublist ''MOD'' (''1d6+'' @ ''MO'')" by (simp add: sublist_code)
  have s: "show_int (- 2) = ''-2''" by (simp add: show_int_def show_nat.simps digit_char_def)
  show ?thesis
    using C5_roll_substitutes_decimal_text [OF h1 h2 h3, of "[]" sample_env "[3]"]
    by (simp add: s)
qed

text \<open>
  Claim C5 as it is written fails: the expression rolled for the modifier \<open>-2\<close> is not
  \<^verbatim>\<open>1d6-2\<close>, and a second \<^verbatim>\<open>MOD\<close> token stays in the expression.
\<close>

theorem C5_counterexample:
  "roll_expression (new_attr\<lparr>rollModifier := JNum (- 2)\<rparr>) ''1d6+MOD'' \<noteq> ''1d6-2'' \<and>
   roll_expression (new_attr\<lparr>rollModifier := JNum (- 2)\<rparr>) ''1d6+MOD+MOD'' = ''1d6+-2+MOD''"
  by (simp add: roll_expression_def replace_string_def show_int_def show_nat.simps digit_char_def)

text \<open>
  Claim C10. Only the boolean \<^verbatim>\<open>false\<close> switches the substitution off. With a
  \<^verbatim>\<open>rollModifier\<close> that was never configured, the first \<^verbatim>\<open>MOD\<close> becomes the text
  \<^verbatim>\<open>undefined\<close>. Whatever the modifier is, the text before the first \<^verbatim>\<open>MOD\<close> and the
  text after it, with any further \<^verbatim>\<open>MOD\<close> in it, reach the dice library unchanged, and
  an expression without \<^verbatim>\<open>MOD\<close> is rolled as it is.
\<close>

theorem C10_false_is_the_only_sentinel:
  "(rollModifier a = JBool False \<longrightarrow> roll_expression a dice = dice) \<and>
   (rollModifier a = JUndefined \<and> \<not> sublist ''MOD'' (pre @ ''MO'') \<longrightarrow>
      roll_expression a (pre @ ''MOD'' @ post) = pre @ ''undefined'' @ post) \<and>
   (rollModifier a \<noteq> JBool False \<and> \<not> sublist ''MOD'' (pre @ ''MO'') \<longrightarrow>
      roll_expression a (pre @ ''MOD'' @ post) =
        pre @ get_substitution ''MOD'' pre post [] (to_string (rollModifier a)) @ post) \<and>
   (\<not> sublist ''MOD'' dice \<longrightarrow> roll_expression a dice = dice) \<and>
   roll E a dice w = Dice_roll E (roll_expression a dice) w"
proof (intro conjI impI)
  assume "rollModifier a = JBool False"
  then show "roll_expression a dice = dice" by (simp add: roll_expression_def)
next
  assume h: "rollModifier a = JUndefined \<and> \<not> sublist ''MOD'' (pre @ ''MO'')"
  then have "rollModifier a \<noteq> JBool False" by simp
  then have "roll_expression a (pre @ ''MOD'' @ post) =
      pre @ get_substitution ''MOD'' pre post [] (to_string (rollModifier a)) @ post"
    using h by (intro roll_expression_first) simp_all
  with h show "roll_expression a (pre @ ''MOD'' @ post) = pre @ ''undefined'' @ post"
    by (simp add: get_substitution_plain)
next
  assume "rollModifier a \<noteq> JBool False \<and> \<not> sublist ''MOD'' (pre @ ''MO'')"
  then show "roll_expression a (pre @ ''MOD'' @ post) =
      pre @ get_substitution ''MOD'' pre post [] (to_string (rollModifier a)) @ post"
    by (intro roll_expression_first) simp_all
next
  assume "\<not> sublist ''MOD'' dice"
  then have "replace_from [] ''MOD'' (to_string (rollModifier a)) dice = [] @ dice"
    by (intro replace_from_absent) simp_all
  then show "roll_expression a dice = dice"
    by (simp add: roll_expression_def replace_string_def)
next
  show "roll E a dice w = Dice_roll E (roll_expression a dice) w" by (simp add: roll_def)
qed

theorem C10_witness:
  "roll_expression (new_attr\<lparr>rollModifier := JBool False\<rparr>) ''1d4+MOD'' = ''1d4+MOD'' \<and>
   roll_expression new_attr ''1d4+MOD+MOD'' = ''1d4+undefined+MOD'' \<and>
   roll_expression new_attr ''1d4'' = ''1d4''"
proof -
  have u: "rollModifier new_attr = JUndefined" by (simp add: new_attr_def)
  have n: "\<not> sublist ''MOD'' (''1d4+'' @ ''MO'')" by (simp add: sublist_code)
  have m: "\<not> sublist ''MOD'' ''1d4''" by (simp add: sublist_code)
  show ?thesis
    using C10_false_is_the_only_sentinel
        [of "new_attr\<lparr>rollModifier := JBool False\<rparr>" "''1d4+MOD''" "[]" "[]" sample_env "[]"]
      C10_false_is_the_only_sentinel [of new_attr "''1d4''" "''1d4+''" "''+MOD''" sample_env "[]"] u n m
    by simp
qed

section \<open>Selecting a row\<close>

text \<open>
  Claim C3 at a table whose ranges overlap: the total 45 lies in the range of the
  first row and in the range of the second, and \<^verbatim>\<open>rollForRow\<close> returns the second, the
  last row that matches, where the claim names the first.
\<close>

theorem C3_overlapping_ranges_last_row:
  "in_range 45 (ranged_row ''Fighter'' 1 50) \<and> in_range 45 (ranged_row ''Wizard'' 40 100) \<and>
   rollForRow sample_env (set_tableName sample_env new_attr ''class'') [45] =
     Ok (Some (ranged_row ''Wizard'' 40 100),
         (set_tableName sample_env new_attr ''class'')\<lparr>rollResult := RDice \<lparr>total = 45, faces = [45]\<rparr>\<rparr>,
         [])"
  by (simp add: in_range_def ranged_row_def rollForRow_def set_tableName_def sample_env_def
      sample_tables_def toKey_def to_lower_def is_space_def class_table_def roll_def
      roll_expression_def new_attr_def replace_string_def)

section \<open>Facts about resolution\<close>

lemma rbind_Ok_iff: "rbind m f = Ok x \<longleftrightarrow> (\<exists>y. m = Ok y \<and> f y = Ok x)"
  by (cases m) auto

lemma set_data_plain:
  "translate (case d of None \<Rightarrow> empty_row | Some r \<Rightarrow> r) = None \<Longrightarrow>
   set_data sub E a d w = Ok (a\<lparr>priv_data := Some (case d of None \<Rightarrow> empty_row | Some r \<Rightarrow> r)\<rparr>, w)"
  by (simp add: set_data_def Let_def)

lemma set_data_None: "set_data sub E a None w = Ok (a\<lparr>priv_data := Some empty_row\<rparr>, w)"
  by (simp add: set_data_def empty_row_def)

lemma set_data_keeps:
  assumes "set_data sub E a d w = Ok (a', w')"
  shows "rollResult a' = rollResult a \<and> table a' = table a \<and> priv_fetch a' = priv_fetch a \<and>
         rollModifier a' = rollModifier a \<and>
         map_option outcome (data a') = Some (outcome (case d of None \<Rightarrow> empty_row | Some r \<Rightarrow> r))"
  using assms
  by (auto simp: set_data_def Let_def data_def rbind_Ok_iff split: option.splits if_splits)

lemma rollForRow_last_match:
  "table a = Some tbl \<Longrightarrow> roll E a (table_roll tbl) w = Ok (res, w') \<Longrightarrow>
   rollForRow E a w =
     Ok (List.find (in_range (total res)) (rev (outcomes tbl)), a\<lparr>rollResult := RDice res\<rparr>, w')"
  by (simp add: rollForRow_def foldl_last_match)

lemma sample_key [simp]:
  "toKey ''race'' = ''race''" "toKey ''background'' = ''background''" "toKey ''class'' = ''class''"
  "toKey ''origin'' = ''origin''" "toKey ''age'' = ''age''"
  "toKey ''home'' = ''home''" "toKey ''birth'' = ''birth''"
  by (simp_all add: toKey_def to_lower_def is_space_def)

lemma sample_lookup [simp]:
  "TABLES sample_env ''race'' = Some race_table"
  "TABLES sample_env ''background'' = Some background_table"
  "TABLES sample_env ''class'' = Some class_table"
  "TABLES sample_env ''origin'' = Some origin_table"
  "TABLES sample_env ''age'' = Some age_table"
  "TABLES sample_env ''home'' = Some home_table"
  "TABLES sample_env ''birth'' = Some birth_table"
  by (simp_all add: sample_env_def sample_tables_def)

lemma sample_dice [simp]:
  "Dice_roll sample_env e (x # xs) = Ok (\<lparr>total = int x, faces = [int x]\<rparr>, xs)"
  "random_floor sample_env n (x # xs) = (if n = 0 then 0 else x mod n, xs)"
  by (simp_all add: sample_env_def)

lemma generate_lookup_miss:
  assumes "\<not> strict_eq (fetch a) (JStr ''random'')" and "find_row a (fetch a) = Ok None"
  shows "generate sub E a w = Ok (a\<lparr>priv_data := Some empty_row\<rparr>, w)"
  using assms by (simp add: generate_def set_data_None data_def)

section \<open>Resolution when no row is selected\<close>

text \<open>
  Claim C1 at an explicit value that no row of the table has. \<^verbatim>\<open>find\<close> returns \<^verbatim>\<open>false\<close>,
  the setter of \<^verbatim>\<open>data\<close> stores the copy \<^verbatim>\<open>{}\<close> of it, and \<^verbatim>\<open>{}\<close> is truthy: \<^verbatim>\<open>generate\<close>
  returns there. No row is picked by the strategy of the table, no random number is
  drawn, and the attribute is left with an object without fields, where the claim
  says that resolution goes on to the row selector.
\<close>

theorem C1_lookup_miss_stops_resolution:
  "find_row (setConfig sample_env new_attr
       (CfgObject \<lparr>cfg_tableName = ''race'', cfg_fetch = JStr ''Orc'', cfg_rollModifier = JUndefined\<rparr>))
     (JStr ''Orc'') = Ok None \<and>
   CharacterAttribute 1 sample_env
       (CfgObject \<lparr>cfg_tableName = ''race'', cfg_fetch = JStr ''Orc'', cfg_rollModifier = JUndefined\<rparr>) [1] =
     Ok (\<lparr>priv_tableName = Some ''race'', table = Some race_table, priv_fetch = JStr ''Orc'',
          priv_data = Some empty_row, rollModifier = JUndefined, rollResult = RUndefined\<rparr>, [1])"
  by (simp add: generate_def setConfig_def set_tableName_def new_attr_def fetch_def data_def
      strict_eq_def race_table_def find_row_def plain_row_def set_data_None
      numeric_string_def trim_def is_space_def radix_literal_def unsigned_decimal_def
      strip_sign_def is_digit_def)

text \<open>
  Claim C2, as the code has it. When the total of the roll lies in the range of no row,
  \<^verbatim>\<open>rollForRow\<close> records the roll and returns \<^verbatim>\<open>false\<close>, no row of the table; \<^verbatim>\<open>generate\<close>
  completes without raising anything, and \<^verbatim>\<open>toString()\<close> of the attribute is
  \<^verbatim>\<open>undefined\<close>.
\<close>

theorem C2_total_in_no_range:
  assumes tbl: "table a = Some tbl" and dice: "table_roll tbl \<noteq> ''random''"
    and rnd: "fetch a = JStr ''random''" and fresh: "data a = None"
    and rolled: "roll E a (table_roll tbl) w = Ok (res, w')"
    and out: "\<forall>r\<in>set (outcomes tbl). \<forall>lo hi.
        min_r r = Some lo \<and> max_r r = Some hi \<longrightarrow> \<not> (lo \<le> total res \<and> total res \<le> hi)"
  shows "rollForRow E a w = Ok (None, a\<lparr>rollResult := RDice res\<rparr>, w') \<and>
         generate sub E a w = Ok (a\<lparr>rollResult := RDice res, priv_data := Some empty_row\<rparr>, w') \<and>
         toString (a\<lparr>rollResult := RDice res, priv_data := Some empty_row\<rparr>) = Ok JUndefined"
proof -
  have "\<forall>r\<in>set (rev (outcomes tbl)). \<not> in_range (total res) r"
    using out by (auto simp: in_range_def split: option.splits)
  then have "List.find (in_range (total res)) (rev (outcomes tbl)) = None"
    by (simp add: find_None_iff)
  then have r: "rollForRow E a w = Ok (None, a\<lparr>rollResult := RDice res\<rparr>, w')"
    using rollForRow_last_match [OF tbl rolled] by simp
  have g: "generate sub E a w = Ok (a\<lparr>rollResult := RDice res, priv_data := Some empty_row\<rparr>, w')"
    using tbl dice rnd fresh r by (simp add: generate_def strict_eq_def set_data_None)
  have "toString (a\<lparr>rollResult := RDice res, priv_data := Some empty_row\<rparr>) = Ok JUndefined"
    by (simp add: toString_def data_def empty_row_def)
  with r g show ?thesis by simp
qed

theorem C2_witness:
  "generate (\<lambda>k. CharacterAttribute 0 sample_env (CfgString k)) sample_env
     (setConfig sample_env new_attr (CfgString ''background'')) [51] =
   Ok ((setConfig sample_env new_attr (CfgString ''background''))
         \<lparr>rollResult := RDice \<lparr>total = 51, faces = [51]\<rparr>, priv_data := Some empty_row\<rparr>, [])"
proof -
  let ?a = "setConfig sample_env new_attr (CfgString ''background'')"
  have tbl: "table ?a = Some background_table" by (simp add: setConfig_def set_tableName_def)
  have dice: "table_roll background_table \<noteq> ''random''" by (simp add: background_table_def)
  have rnd: "fetch ?a = JStr ''random''"
    by (simp add: setConfig_def set_tableName_def fetch_def new_attr_def)
  have fresh: "data ?a = None" by (simp add: setConfig_def set_tableName_def data_def new_attr_def)
  have rolled: "roll sample_env ?a (table_roll background_table) [51] =
      Ok (\<lparr>total = 51, faces = [51]\<rparr>, [])"
    by (simp add: roll_def)
  have out: "\<forall>r\<in>set (outcomes background_table). \<forall>lo hi.
      min_r r = Some lo \<and> max_r r = Some hi \<longrightarrow>
        \<not> (lo \<le> total \<lparr>total = 51, faces = [51]\<rparr> \<and> total \<lparr>total = 51, faces = [51]\<rparr> \<le> hi)"
    by (simp add: background_table_def ranged_row_def)
  show ?thesis
    using C2_total_in_no_range [OF tbl dice rnd fresh rolled out,
        of "\<lambda>k. CharacterAttribute 0 sample_env (CfgString k)"] by simp
qed

text \<open>
  Claim C2 as it is written fails: with the total 51, which no row of the table covers,
  the constructor returns normally, with an attribute that has no outcome.
\<close>

theorem C2_counterexample:
  "CharacterAttribute 1 sample_env (CfgString ''background'') [51] =
     Ok (\<lparr>priv_tableName = Some ''background'', table = Some background_table,
          priv_fetch = JUndefined, priv_data = Some empty_row, rollModifier = JUndefined,
          rollResult = RDice \<lparr>total = 51, faces = [51]\<rparr>\<rparr>, [])"
  by (simp add: generate_def setConfig_def set_tableName_def new_attr_def fetch_def data_def
      strict_eq_def background_table_def rollForRow_def roll_def roll_expression_def
      replace_string_def ranged_row_def in_range_def set_data_None)

section \<open>The random strategy\<close>

text \<open>
  Claim C4, as the code has it. For a table whose strategy is \<^verbatim>\<open>random\<close>, resolution
  takes the row at the index that the random source gives and stores that index, a
  plain number, in \<^verbatim>\<open>rollResult\<close>; the row is then passed to the setter of \<^verbatim>\<open>data\<close>.
  A row without a template is the data of the attribute as it is.
\<close>

theorem C4_random_strategy_records_index:
  assumes tbl: "table a = Some tbl" and strat: "table_roll tbl = ''random''"
    and rnd: "fetch a = JStr ''random''" and fresh: "data a = None"
    and draw: "random_floor E (length (outcomes tbl)) w = (i, w1)"
    and inside: "i < length (outcomes tbl)"
  shows "generate sub E a w =
           set_data sub E (a\<lparr>rollResult := RNumber (int i)\<rparr>) (Some (outcomes tbl ! i)) w1 \<and>
         (translate (outcomes tbl ! i) = None \<longrightarrow>
            generate sub E a w =
              Ok (a\<lparr>rollResult := RNumber (int i), priv_data := Some (outcomes tbl ! i)\<rparr>, w1)) \<and>
         (\<forall>a' w'. generate sub E a w = Ok (a', w') \<longrightarrow>
            rollResult a' = RNumber (int i) \<and>
            map_option outcome (data a') = Some (outcome (outcomes tbl ! i)))"
proof -
  have g: "generate sub E a w =
      set_data sub E (a\<lparr>rollResult := RNumber (int i)\<rparr>) (Some (outcomes tbl ! i)) w1"
    using tbl strat rnd fresh draw inside
    by (simp add: generate_def strict_eq_def randomRow_def)
  have p: "translate (outcomes tbl ! i) = None \<longrightarrow>
      generate sub E a w =
        Ok (a\<lparr>rollResult := RNumber (int i), priv_data := Some (outcomes tbl ! i)\<rparr>, w1)"
    using set_data_plain [of "Some (outcomes tbl ! i)" sub E "a\<lparr>rollResult := RNumber (int i)\<rparr>" w1]
    by (simp add: g)
  have k: "\<forall>a' w'. generate sub E a w = Ok (a', w') \<longrightarrow>
      rollResult a' = RNumber (int i) \<and>
      map_option outcome (data a') = Some (outcome (outcomes tbl ! i))"
    using set_data_keeps [of sub E "a\<lparr>rollResult := RNumber (int i)\<rparr>" "Some (outcomes tbl ! i)" w1]
    by (simp add: g)
  from g p k show ?thesis by blast
qed

theorem C4_witness:
  "generate (\<lambda>k. CharacterAttribute 0 sample_env (CfgString k)) sample_env
     (setConfig sample_env new_attr (CfgString ''race'')) [1] =
   Ok ((setConfig sample_env new_attr (CfgString ''race''))
         \<lparr>rollResult := RNumber 1, priv_data := Some (plain_row ''Dwarf'')\<rparr>, [])"
proof -
  let ?a = "setConfig sample_env new_attr (CfgString ''race'')"
  have tbl: "table ?a = Some race_table" by (simp add: setConfig_def set_tableName_def)
  have strat: "table_roll race_table = ''random''" by (simp add: race_table_def)
  have rnd: "fetch ?a = JStr ''random''"
    by (simp add: setConfig_def set_tableName_def fetch_def new_attr_def)
  have fresh: "data ?a = None" by (simp add: setConfig_def set_tableName_def data_def new_attr_def)
  have draw: "random_floor sample_env (length (outcomes race_table)) [1] = (1, [])"
    by (simp add: race_table_def)
  have inside: "1 < length (outcomes race_table)" by (simp add: race_table_def)
  have row: "outcomes race_table ! 1 = plain_row ''Dwarf''" by (simp add: race_table_def)
  have plain: "translate (plain_row ''Dwarf'') = None" by (simp add: plain_row_def)
  show ?thesis
    using C4_random_strategy_records_index [OF tbl strat rnd fresh draw inside,
        of "\<lambda>k. CharacterAttribute 0 sample_env (CfgString k)", THEN conjunct2, THEN conjunct1]
      row plain
    by simp
qed

text \<open>
  Claim C4 as it is written fails: after resolving on a random table, \<^verbatim>\<open>rollResult\<close>
  holds the number 1, which is neither a result of the dice library nor nothing.
\<close>

theorem C4_counterexample:
  "CharacterAttribute 1 sample_env (CfgString ''race'') [1] =
     Ok (\<lparr>priv_tableName = Some ''race'', table = Some race_table, priv_fetch = JUndefined,
          priv_data = Some (plain_row ''Dwarf''), rollModifier = JUndefined,
          rollResult = RNumber 1\<rparr>, [])"
  by (simp add: generate_def setConfig_def set_tableName_def new_attr_def fetch_def data_def
      strict_eq_def race_table_def randomRow_def set_data_def plain_row_def Let_def)

section \<open>Lookup by value\<close>
















lemma find_row_last_match:
  "table a = Some tbl \<Longrightarrow>
   find_row a lookup =
     Ok (List.find (\<lambda>r. strict_eq (if \<not> isNaN lookup then parseInt lookup else lookup) (outcome r))
           (rev (outcomes tbl)))"
  by (simp add: find_row_def foldl_last_match)





section \<open>Placeholder expansion\<close>

lemma scan_marker_decomp:
  "scan_marker t = Some (k, r) \<Longrightarrow> t = k @ ''}}'' @ r \<and> (\<forall>c\<in>set k. \<not> is_line_terminator c)"
proof (induction t arbitrary: k r)
  case Nil
  then show ?case by simp
next
  case (Cons c cs)
  show ?case
  proof (cases "c = CHR ''}'' \<and> (case cs of [] \<Rightarrow> False | d # _ \<Rightarrow> d = CHR ''}'')")
    case True
    then obtain rest where "cs = CHR ''}'' # rest" by (cases cs) auto
    with True Cons.prems show ?thesis by simp
  next
    case False
    with Cons.prems have nl: "\<not> is_line_terminator c"
      by (auto split: if_splits)
    with False Cons.prems obtain k' where k': "scan_marker cs = Some (k', r)" and k: "k = c # k'"
      by (auto split: if_splits option.splits)
    from Cons.IH [OF k'] nl k show ?thesis by simp
  qed
qed

lemma marker_at_decomp:
  assumes "marker_at s = Some (k, r)"
  shows "s = ''{{'' @ k @ ''}}'' @ r \<and> (\<forall>c\<in>set k. \<not> is_line_terminator c)"
proof -
  from assms obtain t where s: "s = CHR ''{'' # CHR ''{'' # t" and t: "scan_marker t = Some (k, r)"
    by (auto simp: marker_at_def split: list.splits if_splits)
  from scan_marker_decomp [OF t] s show ?thesis by simp
qed

lemma markers_at_marker:
  "markers_at s = Some (m, r) \<Longrightarrow> \<exists>k r0. marker_at s = Some (k, r0)"
  by (subst (asm) markers_at.simps) (auto split: option.splits)

lemma match_all_marker:
  "match_all s \<noteq> [] \<Longrightarrow> \<exists>u t k r. s = u @ t \<and> marker_at t = Some (k, r)"
proof (induction s)
  case Nil
  then show ?case by simp
next
  case (Cons c cs)
  show ?case
  proof (cases "markers_at (c # cs)")
    case None
    with Cons.prems have "match_all cs \<noteq> []" by simp
    then obtain u t k r where "cs = u @ t" "marker_at t = Some (k, r)"
      using Cons.IH by blast
    then have "c # cs = (c # u) @ t \<and> marker_at t = Some (k, r)" by simp
    then show ?thesis by blast
  next
    case (Some p)
    then obtain k r0 where "marker_at (c # cs) = Some (k, r0)"
      using markers_at_marker [of "c # cs" "fst p" "snd p"] by auto
    then have "c # cs = [] @ (c # cs) \<and> marker_at (c # cs) = Some (k, r0)" by simp
    then show ?thesis by blast
  qed
qed

text \<open>
  Claim C8. A template with no marker, that is with no two opening braces followed on
  the same line by two closing braces, is returned by \<^verbatim>\<open>translateOutcome\<close> as it is:
  nothing is thrown, no table is read and no random number is drawn.
\<close>

theorem C8_no_marker_unchanged:
  assumes "\<not> (\<exists>u k v. s = u @ ''{{'' @ k @ ''}}'' @ v \<and> (\<forall>c\<in>set k. c \<noteq> CHR 0x0A \<and> c \<noteq> CHR 0x0D))"
  shows "translateOutcome sub E a s w = Ok (s, w)"
proof -
  have "match_all s = []"
  proof (rule ccontr)
    assume "match_all s \<noteq> []"
    then obtain u t k r where s: "s = u @ t" and m: "marker_at t = Some (k, r)"
      using match_all_marker by blast
    from marker_at_decomp [OF m] s
    have "s = u @ ''{{'' @ k @ ''}}'' @ r \<and> (\<forall>c\<in>set k. c \<noteq> CHR 0x0A \<and> c \<noteq> CHR 0x0D)"
      by (simp add: is_line_terminator_def)
    with assms show False by blast
  qed
  then show ?thesis by (simp add: translateOutcome_def)
qed

theorem C8_witness:
  "translateOutcome (\<lambda>k. CharacterAttribute 0 sample_env (CfgString k)) sample_env new_attr
     ''Pays {5} gp'' [7] = Ok (''Pays {5} gp'', [7])"
proof -
  have "\<not> (\<exists>u k v. ''Pays {5} gp'' = u @ ''{{'' @ k @ ''}}'' @ v \<and>
      (\<forall>c\<in>set k. c \<noteq> CHR 0x0A \<and> c \<noteq> CHR 0x0D))"
  proof (intro notI, elim exE conjE)
    fix u k v
    assume e: "''Pays {5} gp'' = u @ ''{{'' @ k @ ''}}'' @ v"
    have "sublist ''{{'' (u @ ''{{'' @ (k @ ''}}'' @ v))" by (rule sublist_appendI)
    then have "sublist ''{{'' ''Pays {5} gp''" by (simp only: e)
    then show False by (simp add: sublist_code)
  qed
  then show ?thesis by (rule C8_no_marker_unchanged)
qed

section \<open>Which value replaces a marker\<close>

lemma scan_marker_keyword:
  "keyword_ok k \<Longrightarrow> scan_marker (k @ ''}}'' @ r) = Some (k, r)"
proof (induction k)
  case Nil
  show ?case by simp
next
  case (Cons c k)
  then have c: "c \<noteq> CHR ''}''" "\<not> is_line_terminator c" and k: "keyword_ok k"
    by (simp_all add: keyword_ok_def)
  from Cons.IH [OF k] c show ?case by simp
qed

lemma marker_at_keyword:
  "keyword_ok k \<Longrightarrow> marker_at (''{{'' @ k @ ''}}'' @ r) = Some (k, r)"
  using scan_marker_keyword [of k r] by (simp add: marker_at_def)

lemma brace_safe_tl: "brace_safe (c # t) \<Longrightarrow> brace_safe t"
  by (cases t) simp_all

lemma brace_safe_append: "brace_safe a \<Longrightarrow> brace_safe b \<Longrightarrow> brace_safe (a @ b)"
proof (induction a rule: brace_safe.induct)
  case 1
  then show ?case by simp
next
  case (2 c)
  then show ?case by (cases b) simp_all
next
  case (3 c d t)
  then show ?case by simp
qed

lemma marker_at_text: "brace_safe (c # t) \<Longrightarrow> marker_at (c # t @ s) = None"
proof (cases t)
  case Nil
  assume "brace_safe (c # t)"
  with Nil have "c \<noteq> CHR ''{''" by simp
  with Nil show ?thesis by (cases s) (simp_all add: marker_at_def)
next
  case (Cons d t')
  assume "brace_safe (c # t)"
  with Cons have "c \<noteq> CHR ''{'' \<or> d \<noteq> CHR ''{''" by simp
  with Cons show ?thesis by (auto simp: marker_at_def)
qed

lemma marker_at_no_braces: "\<not> sublist ''{{'' s \<Longrightarrow> marker_at s = None"
proof (rule ccontr)
  assume n: "\<not> sublist ''{{'' s" and "marker_at s \<noteq> None"
  then obtain k r where "marker_at s = Some (k, r)" by auto
  then have "s = [] @ ''{{'' @ (k @ ''}}'' @ r)" using marker_at_decomp by fastforce
  then have "sublist ''{{'' s" unfolding sublist_def by blast
  with n show False by simp
qed

lemma match_all_no_braces: "\<not> sublist ''{{'' s \<Longrightarrow> match_all s = []"
proof (rule ccontr)
  assume n: "\<not> sublist ''{{'' s" and "match_all s \<noteq> []"
  then obtain u t k r where s: "s = u @ t" and m: "marker_at t = Some (k, r)"
    using match_all_marker by blast
  from m have "t = ''{{'' @ (k @ ''}}'' @ r)" using marker_at_decomp by fastforce
  with s have "s = u @ ''{{'' @ (k @ ''}}'' @ r)" by simp
  then have "sublist ''{{'' s" unfolding sublist_def by blast
  with n show False by simp
qed

lemma markers_at_none: "marker_at s = None \<Longrightarrow> markers_at s = None"
  by (subst markers_at.simps) simp

lemma markers_at_keyword:
  assumes "keyword_ok k" and "marker_at r = None"
  shows "markers_at (''{{'' @ k @ ''}}'' @ r) = Some (''{{'' @ k @ ''}}'', r)"
  by (subst markers_at.simps)
    (simp only: marker_at_keyword [OF assms(1)] markers_at_none [OF assms(2)] option.case prod.case)

lemma match_all_text:
  "brace_safe t \<Longrightarrow> match_all (t @ s) = match_all s"
proof (induction t)
  case Nil
  show ?case by simp
next
  case (Cons c t)
  then have "marker_at (c # t @ s) = None" by (intro marker_at_text)
  then have "markers_at (c # t @ s) = None" by (rule markers_at_none)
  moreover have "brace_safe t" using Cons.prems by (rule brace_safe_tl)
  ultimately show ?case using Cons.IH by simp
qed

lemma render_head:
  assumes "list_all (\<lambda>(t, k). brace_safe t \<and> keyword_ok k) segs"
    and "\<not> sublist ''{{'' rest" and "list_all (\<lambda>(t, k). t \<noteq> []) segs"
  shows "marker_at (render segs rest) = None"
proof (cases segs)
  case Nil
  with assms(2) show ?thesis by (simp add: marker_at_no_braces)
next
  case (Cons p segs')
  obtain t k where p: "p = (t, k)" by (cases p)
  with Cons assms(1,3) have "t \<noteq> []" "brace_safe t" by simp_all
  then obtain c t' where t: "t = c # t'" and "brace_safe (c # t')" by (cases t) auto
  then have "marker_at (c # t' @ ''{{'' @ k @ ''}}'' @ render segs' rest) = None"
    by (intro marker_at_text)
  with Cons p t show ?thesis by simp
qed

lemma match_all_render:
  assumes "list_all (\<lambda>(t, k). brace_safe t \<and> keyword_ok k) segs"
    and "\<not> sublist ''{{'' rest" and "list_all (\<lambda>(t, k). t \<noteq> []) (tl segs)"
  shows "match_all (render segs rest) = map (\<lambda>(t, k). ''{{'' @ k @ ''}}'') segs"
  using assms
proof (induction segs)
  case Nil
  then show ?case by (simp add: match_all_no_braces)
next
  case (Cons p segs)
  obtain t k where p: "p = (t, k)" by (cases p)
  from Cons.prems p have t: "brace_safe t" and k: "keyword_ok k"
    and ok: "list_all (\<lambda>(t, k). brace_safe t \<and> keyword_ok k) segs"
    and ne: "list_all (\<lambda>(t, k). t \<noteq> []) segs"
    by simp_all
  have ne': "list_all (\<lambda>(t, k). t \<noteq> []) (tl segs)" using ne by (cases segs) simp_all
  have hd: "marker_at (render segs rest) = None"
    using ok Cons.prems(2) ne by (rule render_head)
  have m: "markers_at (''{{'' @ k @ ''}}'' @ render segs rest) =
      Some (''{{'' @ k @ ''}}'', render segs rest)"
    using k hd by (rule markers_at_keyword)
  have "match_all (''{{'' @ k @ ''}}'' @ render segs rest) =
      (''{{'' @ k @ ''}}'') # match_all (render segs rest)"
    using m by simp
  then have "match_all (render ((t, k) # segs) rest) =
      (''{{'' @ k @ ''}}'') # match_all (render segs rest)"
    using match_all_text [OF t, of "''{{'' @ k @ ''}}'' @ render segs rest"] by simp
  with Cons.IH [OF ok Cons.prems(2) ne'] p show ?case by simp
qed

lemma strip_braces_keyword: "keyword_ok k \<Longrightarrow> strip_braces (''{{'' @ k @ ''}}'') = k"
proof -
  assume "keyword_ok k"
  then have "filter (\<lambda>c. c \<noteq> CHR ''{'' \<and> c \<noteq> CHR ''}'') k = k"
    by (induction k) (simp_all add: keyword_ok_def)
  then show ?thesis by (simp add: strip_braces_def)
qed

lemma replace_marker_from_text:
  assumes "brace_safe t" and "keyword_ok k"
  shows "replace_marker_from pre repl (t @ ''{{'' @ k @ ''}}'' @ r) =
         pre @ t @ get_substitution (''{{'' @ k @ ''}}'') (pre @ t) r [k] repl @ r"
  using assms(1)
proof (induction t arbitrary: pre)
  case Nil
  have "marker_at (CHR ''{'' # CHR ''{'' # k @ ''}}'' @ r) = Some (k, r)"
    using marker_at_keyword [OF assms(2), of r] by simp
  then show ?case by simp
next
  case (Cons c t)
  then have "marker_at (c # t @ ''{{'' @ k @ ''}}'' @ r) = None"
    by (intro marker_at_text)
  moreover have "brace_safe t" using Cons.prems by (rule brace_safe_tl)
  ultimately show ?case using Cons.IH [of "pre @ [c]"] by simp
qed

lemma replace_marker_text:
  assumes "brace_safe t" and "keyword_ok k" and "CHR ''$'' \<notin> set repl"
  shows "replace_marker repl (t @ ''{{'' @ k @ ''}}'' @ r) = t @ repl @ r"
  using replace_marker_from_text [OF assms(1,2), of "[]" repl r]
  by (simp add: replace_marker_def get_substitution_plain [OF assms(3)])

lemma replacement_spec_value:
  "data a = Some d \<Longrightarrow> replacement sub E a k s w = spec_value sub E d k s w"
  by (simp add: replacement_def spec_value_def split: option.splits)

lemma translate_loop_expand:
  assumes d: "data a = Some d"
  shows "list_all (\<lambda>(t, k). brace_safe t \<and> keyword_ok k) segs \<Longrightarrow>
    segs = [] \<or> brace_safe done \<Longrightarrow> plain_values sub E d done segs rest w \<Longrightarrow>
    translate_loop sub E a (map (\<lambda>(t, k). ''{{'' @ k @ ''}}'') segs) (done @ render segs rest) w =
      expand sub E d done segs rest w"
proof (induction segs arbitrary: "done" w)
  case Nil
  show ?case by simp
next
  case (Cons p segs)
  obtain t k where p: "p = (t, k)" by (cases p)
  from Cons.prems(1) p have t: "brace_safe t" and k: "keyword_ok k"
    and ok: "list_all (\<lambda>(t, k). brace_safe t \<and> keyword_ok k) segs"
    by simp_all
  let ?cur = "done @ render ((t, k) # segs) rest"
  have rep: "replacement sub E a (strip_braces (''{{'' @ k @ ''}}'')) ?cur w =
      spec_value sub E d k ?cur w"
    by (simp only: strip_braces_keyword [OF k] replacement_spec_value [OF d])
  show ?case
  proof (cases "spec_value sub E d k ?cur w")
    case (Ok x)
    obtain v w' where x: "x = (v, w')" by (cases x)
    from Cons.prems(3) p Ok x have nd: "CHR ''$'' \<notin> set (to_string v)"
      and nb: "segs = [] \<or> brace_safe (to_string v)"
      and rest: "plain_values sub E d (done @ t @ to_string v) segs rest w'"
      by simp_all
    have "brace_safe done" using Cons.prems(2) by simp
    then have dt: "brace_safe (done @ t)" using t by (rule brace_safe_append)
    have "replace_marker (to_string v) ((done @ t) @ ''{{'' @ k @ ''}}'' @ render segs rest) =
        (done @ t) @ to_string v @ render segs rest"
      using dt k nd by (rule replace_marker_text)
    then have rm: "replace_marker (to_string v) ?cur = (done @ t @ to_string v) @ render segs rest"
      by simp
    have d': "segs = [] \<or> brace_safe (done @ t @ to_string v)"
    proof (cases "segs = []")
      case True
      then show ?thesis by simp
    next
      case False
      with nb have "brace_safe (to_string v)" by simp
      with dt have "brace_safe ((done @ t) @ to_string v)" by (rule brace_safe_append)
      then show ?thesis by simp
    qed
    have "translate_loop sub E a (map (\<lambda>(t, k). ''{{'' @ k @ ''}}'') segs)
        ((done @ t @ to_string v) @ render segs rest) w' =
        expand sub E d (done @ t @ to_string v) segs rest w'"
      using ok d' rest by (rule Cons.IH)
    with rep Ok x rm p show ?thesis by simp
  next
    case (Throw e)
    with rep p show ?thesis by simp
  next
    case OutOfFuel
    with rep p show ?thesis by simp
  qed
qed

lemma sample_home_attribute:
  "CharacterAttribute (Suc 0) sample_env (CfgString ''home'') [Suc 0, 3] =
     Ok (\<lparr>priv_tableName = Some ''home'', table = Some home_table, priv_fetch = JUndefined,
          priv_data = Some (plain_row ''Castle''), rollModifier = JUndefined,
          rollResult = RNumber 1\<rparr>, [3])"
  by (simp add: generate_def setConfig_def set_tableName_def new_attr_def fetch_def data_def
      strict_eq_def home_table_def randomRow_def set_data_def plain_row_def Let_def)

lemma sample_other_keys [simp]:
  "TABLES sample_env ''1d4'' = None" "TABLES sample_env ''extra'' = None"
  by (simp_all add: sample_env_def sample_tables_def)

text \<open>
  Claim C6, as the code has it. Take a template in which no text before a marker holds
  two adjacent opening braces or ends with an opening brace, the text after the last
  marker holds no two adjacent opening braces, a text stands between any two markers,
  and no keyword holds a brace or a line terminator; and let every value put in be a
  value of the model whose text holds no dollar sign and, when a further marker
  follows, is itself free of two adjacent opening braces and of an opening brace at
  its end. On such a template \<^verbatim>\<open>translateOutcome\<close> is the expansion from left to right
  of \<open>expand\<close>: each marker is replaced by the value that \<open>spec_value\<close> chooses for its
  keyword, the string of a newly constructed attribute when the keyword is a key of
  \<^verbatim>\<open>TABLES\<close>, else the result of the row's \<^verbatim>\<open>extra\<close> function when the keyword is
  \<^verbatim>\<open>extra\<close> and the row has one, else the total of rolling the keyword. The \<^verbatim>\<open>extra\<close>
  function is called with the template as it stands when its marker is reached, the
  markers before it already replaced; that is the original template only when no
  marker comes before.
\<close>

theorem C6_expansion_by_precedence:
  assumes "data a = Some d" and "well_formed segs rest" and "plain_values sub E d [] segs rest w"
  shows "translateOutcome sub E a (render segs rest) w = expand sub E d [] segs rest w"
proof -
  from assms(2) have ok: "list_all (\<lambda>(t, k). brace_safe t \<and> keyword_ok k) segs"
    and r: "\<not> sublist ''{{'' rest" and ne: "list_all (\<lambda>(t, k). t \<noteq> []) (tl segs)"
    by (simp_all add: well_formed_def)
  have m: "match_all (render segs rest) = map (\<lambda>(t, k). ''{{'' @ k @ ''}}'') segs"
    using ok r ne by (rule match_all_render)
  have "translate_loop sub E a (map (\<lambda>(t, k). ''{{'' @ k @ ''}}'') segs) ([] @ render segs rest) w =
      expand sub E d [] segs rest w"
    using assms(1) ok _ assms(3) by (rule translate_loop_expand) simp
  with m show ?thesis by (simp add: translateOutcome_def)
qed

theorem C6_witness:
  "translateOutcome (\<lambda>k. CharacterAttribute (Suc 0) sample_env (CfgString k)) sample_env
     (new_attr\<lparr>priv_data := Some birth_row\<rparr>)
     ''Pays {5} gp in a {{home}}, child {{1d4}} {{extra}} {ok}'' [1, 3] =
   Ok (''Pays {5} gp in a Castle, child 3 <Pays {5} gp in a Castle, child 3 {{extra}} {ok}> {ok}'', [])"
proof -
  let ?sub = "\<lambda>k. CharacterAttribute (Suc 0) sample_env (CfgString k)"
  let ?segs = "[(''Pays {5} gp in a '', ''home''), ('', child '', ''1d4''), ('' '', ''extra'')]"
  have d: "data (new_attr\<lparr>priv_data := Some birth_row\<rparr>) = Some birth_row"
    by (simp add: data_def)
  have wf: "well_formed ?segs '' {ok}''"
    by (simp add: well_formed_def keyword_ok_def is_line_terminator_def sublist_code)
  have n3: "show_int 3 = ''3''" by (simp add: show_int_def show_nat.simps digit_char_def)
  have pv: "plain_values ?sub sample_env birth_row [] ?segs '' {ok}'' [1, 3]"
    by (simp add: spec_value_def sample_home_attribute toString_def data_def plain_row_def
        birth_row_def n3 safe_integer_def del: CharacterAttribute.simps)
  have ex: "expand ?sub sample_env birth_row [] ?segs '' {ok}'' [1, 3] =
      Ok (''Pays {5} gp in a Castle, child 3 <Pays {5} gp in a Castle, child 3 {{extra}} {ok}> {ok}'', [])"
    by (simp add: spec_value_def sample_home_attribute toString_def data_def plain_row_def
        birth_row_def n3 del: CharacterAttribute.simps)
  show ?thesis
    using C6_expansion_by_precedence [OF d wf pv] ex by simp
qed

text \<open>
  Claim C6 as it is written fails: in the template of the sample row the marker
  \<^verbatim>\<open>extra\<close> is the third, and the function is called with the template in which the
  first two markers have been replaced, not with the original template.
\<close>

theorem C6_counterexample:
  "CharacterAttribute (Suc (Suc 0)) sample_env (CfgString ''birth'') [0, 1, 3] =
     Ok (\<lparr>priv_tableName = Some ''birth'', table = Some birth_table, priv_fetch = JUndefined,
          priv_data = Some (birth_row\<lparr>translate :=
            Some ''Born in a Castle, child 3 <Born in a Castle, child 3 {{extra}}>''\<rparr>),
          rollModifier = JUndefined, rollResult = RNumber 0\<rparr>, []) \<and>
   the (extra birth_row) ''Born in a {{home}}, child {{1d4}} {{extra}}'' \<noteq>
     ''<Born in a Castle, child 3 {{extra}}>''"
  by (simp add: generate_def setConfig_def set_tableName_def new_attr_def fetch_def data_def
      strict_eq_def birth_table_def home_table_def randomRow_def set_data_def birth_row_def
      plain_row_def translateOutcome_def markers_at.simps marker_at_def is_line_terminator_def
      strip_braces_def replacement_def toString_def replace_marker_def show_int_def
      show_nat.simps digit_char_def Let_def)

section \<open>The table store is not written\<close>

lemma preserved_refl: "preserved h h"
  by (simp add: preserved_def)

lemma preserved_trans: "preserved h1 h2 \<Longrightarrow> preserved h2 h3 \<Longrightarrow> preserved h1 h3"
  by (auto simp: preserved_def)

lemma preserved_alloc: "alloc r h = (n, h1) \<Longrightarrow> preserved h h1 \<and> n = fresh h"
  by (auto simp: alloc_def preserved_def)

lemma preserved_write:
  "preserved h h2 \<Longrightarrow> fresh h \<le> n \<Longrightarrow> preserved h (h2\<lparr>objs := (objs h2)(n \<mapsto> x)\<rparr>)"
  by (auto simp: preserved_def)

lemma replacement_s_preserved:
  assumes "\<And>k h w. preserved h (fst (sub k h w))"
  shows "preserved h (fst (replacement_s sub E h a m s w))"
proof (cases "TABLES_s E m \<noteq> None")
  case True
  obtain h' r where s: "sub m h w = (h', r)" by (cases "sub m h w")
  have "preserved h (fst (sub m h w))" by (rule assms)
  with True s show ?thesis by (simp add: replacement_s_def)
next
  case False
  then show ?thesis
    by (simp add: replacement_s_def preserved_refl split: option.splits)
qed

lemma translate_loop_s_preserved:
  assumes "\<And>k h w. preserved h (fst (sub k h w))"
  shows "preserved h (fst (translate_loop_s sub E h a ms s w))"
proof (induction ms arbitrary: h s w)
  case Nil
  show ?case by (simp add: preserved_refl)
next
  case (Cons m ms)
  obtain h' r where rep: "replacement_s sub E h a (strip_braces m) s w = (h', r)"
    by (cases "replacement_s sub E h a (strip_braces m) s w")
  have p: "preserved h h'"
    using replacement_s_preserved [of sub h E a "strip_braces m" s w, OF assms] rep by simp
  show ?case
  proof (cases r)
    case (Ok x)
    obtain v w' where x: "x = (v, w')" by (cases x)
    have "preserved h' (fst (translate_loop_s sub E h' a ms (replace_marker (to_string v) s) w'))"
      by (rule Cons.IH)
    with p have "preserved h (fst (translate_loop_s sub E h' a ms (replace_marker (to_string v) s) w'))"
      by (rule preserved_trans)
    with rep Ok x show ?thesis by simp
  next
    case (Throw e)
    with rep p show ?thesis by simp
  next
    case OutOfFuel
    with rep p show ?thesis by simp
  qed
qed

lemma set_data_s_preserved:
  assumes "\<And>k h w. preserved h (fst (sub k h w))"
  shows "preserved h (fst (set_data_s sub E h a d w))"
    and "snd (set_data_s sub E h a d w) = Ok (a', w') \<Longrightarrow> data_s a' = Some (fresh h)"
proof -
  let ?r = "case d of None \<Rightarrow> empty_row | Some p \<Rightarrow> deref h p"
  obtain n h1 where al: "alloc ?r h = (n, h1)" by (cases "alloc ?r h")
  from preserved_alloc [OF al] have p1: "preserved h h1" and n: "n = fresh h" by simp_all
  let ?a1 = "a\<lparr>data_s := Some n\<rparr>"
  show "preserved h (fst (set_data_s sub E h a d w))"
  proof (cases "translate (deref h1 n)")
    case None
    with al p1 show ?thesis by (simp add: set_data_s_def)
  next
    case (Some t)
    show ?thesis
    proof (cases "t = []")
      case True
      with Some al p1 show ?thesis by (simp add: set_data_s_def)
    next
      case False
      obtain h2 r where tr: "translateOutcome_s sub E h1 ?a1 t w = (h2, r)"
        by (cases "translateOutcome_s sub E h1 ?a1 t w")
      have "preserved h1 (fst (translateOutcome_s sub E h1 ?a1 t w))"
        unfolding translateOutcome_s_def by (rule translate_loop_s_preserved) (rule assms)
      with tr p1 have p2: "preserved h h2" by (auto intro: preserved_trans)
      show ?thesis
      proof (cases r)
        case (Ok x)
        obtain s w2 where x: "x = (s, w2)" by (cases x)
        have "preserved h (h2\<lparr>objs := (objs h2)(n \<mapsto> (deref h2 n)\<lparr>translate := Some s\<rparr>)\<rparr>)"
          using p2 n by (intro preserved_write) simp_all
        with Some False al tr Ok x show ?thesis by (simp add: set_data_s_def)
      next
        case (Throw e)
        with Some False al tr p2 show ?thesis by (simp add: set_data_s_def)
      next
        case OutOfFuel
        with Some False al tr p2 show ?thesis by (simp add: set_data_s_def)
      qed
    qed
  qed
  show "snd (set_data_s sub E h a d w) = Ok (a', w') \<Longrightarrow> data_s a' = Some (fresh h)"
    using al n
    by (auto simp: set_data_s_def Let_def split: option.splits if_splits prod.splits result.splits)
qed

lemma select_s_preserved:
  assumes "\<And>k h w. preserved h (fst (sub k h w))"
  defines "sel \<equiv> \<lambda>E h a w tbl.
      (case (if table_roll_s tbl = ''random'' then randomRow_s E a w else rollForRow_s E h a w) of
         Ok (r, a2, w2) \<Rightarrow> set_data_s sub E h a2 r w2
       | Throw e \<Rightarrow> (h, Throw e)
       | OutOfFuel \<Rightarrow> (h, OutOfFuel))"
  shows "preserved h (fst (sel E h a w tbl))"
    and "snd (sel E h a w tbl) = Ok (a', w') \<Longrightarrow> data_s a' = Some (fresh h)"
proof -
  let ?c = "if table_roll_s tbl = ''random'' then randomRow_s E a w else rollForRow_s E h a w"
  note sd = set_data_s_preserved [of sub, OF assms(1)]
  show "preserved h (fst (sel E h a w tbl))"
  proof (cases ?c)
    case (Ok x)
    obtain r a2 w2 where "x = (r, a2, w2)" by (cases x)
    with Ok show ?thesis unfolding sel_def by (simp add: sd(1))
  next
    case (Throw e)
    then show ?thesis unfolding sel_def by (simp add: preserved_refl)
  next
    case OutOfFuel
    then show ?thesis unfolding sel_def by (simp add: preserved_refl)
  qed
  show "snd (sel E h a w tbl) = Ok (a', w') \<Longrightarrow> data_s a' = Some (fresh h)"
  proof (cases ?c)
    case (Ok x)
    assume r: "snd (sel E h a w tbl) = Ok (a', w')"
    obtain r a2 w2 where "x = (r, a2, w2)" by (cases x)
    with Ok r have "snd (set_data_s sub E h a2 r w2) = Ok (a', w')" unfolding sel_def by simp
    then show ?thesis by (rule sd(2))
  next
    case (Throw e)
    assume "snd (sel E h a w tbl) = Ok (a', w')"
    with Throw show ?thesis unfolding sel_def by simp
  next
    case OutOfFuel
    assume "snd (sel E h a w tbl) = Ok (a', w')"
    with OutOfFuel show ?thesis unfolding sel_def by simp
  qed
qed

lemma generate_s_preserved:
  assumes "\<And>k h w. preserved h (fst (sub k h w))"
  shows "preserved h (fst (generate_s sub E h a w))"
    and "data_s a = None \<Longrightarrow> snd (generate_s sub E h a w) = Ok (a', w') \<Longrightarrow>
         data_s a' = Some (fresh h)"
proof -
  note sd = set_data_s_preserved [of sub, OF assms]
  note sel = select_s_preserved [of sub, OF assms]
  have both: "preserved h (fst (generate_s sub E h a w)) \<and>
      (data_s a = None \<longrightarrow> snd (generate_s sub E h a w) = Ok (a', w') \<longrightarrow>
         data_s a' = Some (fresh h))"
  proof (cases "strict_eq (fetch_s a) (JStr ''random'')")
    case True
    show ?thesis
    proof (cases "data_s a")
      case (Some p)
      with True show ?thesis by (simp add: generate_s_def preserved_refl)
    next
      case None
      show ?thesis
      proof (cases "table_of_s a")
        case nt: None
        with True None show ?thesis by (simp add: generate_s_def preserved_refl)
      next
        case (Some tbl)
        with True None sel(1) [where h=h and E=E and a=a and w=w and tbl=tbl]
          sel(2) [where h=h and E=E and a=a and w=w and tbl=tbl and a'=a' and w'=w']
        show ?thesis by (simp add: generate_s_def)
      qed
    qed
  next
    case False
    show ?thesis
    proof (cases "find_s h a (fetch_s a)")
      case (Ok found)
      obtain h1 r1 where s1: "set_data_s sub E h a found w = (h1, r1)"
        by (cases "set_data_s sub E h a found w")
      have p1: "preserved h h1" using sd(1) [where h=h and E=E and a=a and d=found and w=w] s1 by simp
      show ?thesis
      proof (cases r1)
        case ok: (Ok x)
        obtain a1 w1 where x: "x = (a1, w1)" by (cases x)
        have "data_s a1 = Some (fresh h)"
          using sd(2) [where h=h and E=E and a=a and d=found and w=w and a'=a1 and w'=w1] s1 ok x
          by simp
        with False Ok s1 ok x p1 show ?thesis by (auto simp: generate_s_def)
      next
        case (Throw e)
        with False Ok s1 p1 show ?thesis by (simp add: generate_s_def)
      next
        case OutOfFuel
        with False Ok s1 p1 show ?thesis by (simp add: generate_s_def)
      qed
    next
      case (Throw e)
      with False show ?thesis by (simp add: generate_s_def preserved_refl)
    next
      case OutOfFuel
      with False show ?thesis by (simp add: generate_s_def preserved_refl)
    qed
  qed
  from both show "preserved h (fst (generate_s sub E h a w))" by simp
  from both show "data_s a = None \<Longrightarrow> snd (generate_s sub E h a w) = Ok (a', w') \<Longrightarrow>
         data_s a' = Some (fresh h)" by simp
qed

lemma CharacterAttribute_s_preserved: "preserved h (fst (CharacterAttribute_s n E c h w))"
proof (induction n arbitrary: c h w)
  case 0
  show ?case by (simp add: preserved_refl)
next
  case (Suc n)
  have "\<And>k h w. preserved h (fst (CharacterAttribute_s n E (CfgString k) h w))"
    by (rule Suc.IH)
  then show ?case by (simp add: generate_s_preserved(1))
qed

lemma CharacterAttribute_s_data:
  assumes "snd (CharacterAttribute_s n E c h w) = Ok (a, w')"
  shows "data_s a = Some (fresh h)"
proof (cases n)
  case 0
  with assms show ?thesis by simp
next
  case (Suc m)
  have sub: "\<And>k h w. preserved h (fst (CharacterAttribute_s m E (CfgString k) h w))"
    by (rule CharacterAttribute_s_preserved)
  have "data_s (setConfig_s E new_attr_s c) = None"
    by (simp add: setConfig_s_def new_attr_s_def split: config_arg.splits)
  then show ?thesis
    using generate_s_preserved(2) [of "\<lambda>k. CharacterAttribute_s m E (CfgString k)", OF sub] assms Suc
    by simp
qed

lemma sample_run:
  "CharacterAttribute_s (Suc (Suc 0)) sample_env_s (CfgString ''birth'') sample_store [0, 1, 3] =
     (\<lparr>objs = [0 \<mapsto> plain_row ''Hut'', 1 \<mapsto> plain_row ''Castle'', 2 \<mapsto> birth_row,
               4 \<mapsto> plain_row ''Castle'',
               3 \<mapsto> birth_row\<lparr>translate :=
                   Some ''Born in a Castle, child 3 <Born in a Castle, child 3 {{extra}}>''\<rparr>],
        fresh = 5\<rparr>,
      Ok (\<lparr>tableName_s = Some ''birth'',
           table_of_s = Some \<lparr>table_roll_s = ''random'', outcomes_s = [2]\<rparr>,
           fetch_of_s = JUndefined, data_s = Some 3, rollModifier_s = JUndefined,
           rollResult_s = RNumber 0\<rparr>, []))"
  by (simp add: generate_s_def setConfig_s_def new_attr_s_def fetch_s_def strict_eq_def
      sample_env_s_def sample_store_def randomRow_s_def set_data_s_def alloc_def deref_def
      birth_row_def plain_row_def translateOutcome_s_def markers_at.simps marker_at_def
      is_line_terminator_def strip_braces_def replacement_s_def toString_s_def
      replace_marker_def show_int_def show_nat.simps digit_char_def toKey_def to_lower_def
      is_space_def char_of_def bit_0 Let_def)

text \<open>
  Claim C9. Whatever the constructor is given, and whether it returns, throws or runs
  out of depth, the store it leaves has every object that was there before with the
  fields it had: in particular every row that a table of \<^verbatim>\<open>TABLES\<close> refers to. The
  \<^verbatim>\<open>_data\<close> of the attribute it returns is the object allocated first, a copy made
  before any translation, and the translated template is written there. A second
  resolution on the store that the first one left keeps the objects of the first store
  as well.
\<close>

theorem C9_table_store_not_mutated:
  "preserved h (fst (CharacterAttribute_s n E c h w)) \<and>
   (\<forall>key tbl p. TABLES_s E key = Some tbl \<and> p \<in> set (outcomes_s tbl) \<and> p < fresh h \<longrightarrow>
      objs (fst (CharacterAttribute_s n E c h w)) p = objs h p) \<and>
   (\<forall>a w'. snd (CharacterAttribute_s n E c h w) = Ok (a, w') \<longrightarrow> data_s a = Some (fresh h)) \<and>
   preserved h (fst (CharacterAttribute_s m E c2 (fst (CharacterAttribute_s n E c h w)) w2))"
proof -
  have p: "preserved h (fst (CharacterAttribute_s n E c h w))"
    by (rule CharacterAttribute_s_preserved)
  have q: "preserved (fst (CharacterAttribute_s n E c h w))
      (fst (CharacterAttribute_s m E c2 (fst (CharacterAttribute_s n E c h w)) w2))"
    by (rule CharacterAttribute_s_preserved)
  from p have "\<forall>key tbl p. TABLES_s E key = Some tbl \<and> p \<in> set (outcomes_s tbl) \<and> p < fresh h \<longrightarrow>
      objs (fst (CharacterAttribute_s n E c h w)) p = objs h p"
    by (simp add: preserved_def)
  moreover have "\<forall>a w'. snd (CharacterAttribute_s n E c h w) = Ok (a, w') \<longrightarrow> data_s a = Some (fresh h)"
    by (intro allI impI) (rule CharacterAttribute_s_data)
  moreover from p q have "preserved h (fst (CharacterAttribute_s m E c2 (fst (CharacterAttribute_s n E c h w)) w2))"
    by (rule preserved_trans)
  ultimately show ?thesis using p by blast
qed

theorem C9_witness:
  "objs (fst (CharacterAttribute_s (Suc (Suc 0)) sample_env_s (CfgString ''birth'') sample_store
       [0, 1, 3])) 2 = Some birth_row \<and>
   map_option translate
     (objs (fst (CharacterAttribute_s (Suc (Suc 0)) sample_env_s (CfgString ''birth'') sample_store
        [0, 1, 3])) 3) =
     Some (Some ''Born in a Castle, child 3 <Born in a Castle, child 3 {{extra}}>'')"
proof -
  let ?run = "CharacterAttribute_s (Suc (Suc 0)) sample_env_s (CfgString ''birth'') sample_store [0, 1, 3]"
  have t: "TABLES_s sample_env_s ''birth'' = Some \<lparr>table_roll_s = ''random'', outcomes_s = [2]\<rparr>"
    by (simp add: sample_env_s_def)
  have m: "2 \<in> set (outcomes_s \<lparr>table_roll_s = ''random'', outcomes_s = [2]\<rparr>)" by simp
  have b: "2 < fresh sample_store" by (simp add: sample_store_def)
  have "objs (fst ?run) 2 = objs sample_store 2"
    using C9_table_store_not_mutated [where h = sample_store and n = "Suc (Suc 0)"
        and E = sample_env_s and c = "CfgString ''birth''" and w = "[0, 1, 3]",
        THEN conjunct2, THEN conjunct1, rule_format, OF conjI, OF t conjI, OF m b] .
  then have "objs (fst ?run) 2 = Some birth_row" by (simp add: sample_store_def)
  moreover have "map_option translate (objs (fst ?run) 3) =
      Some (Some ''Born in a Castle, child 3 <Born in a Castle, child 3 {{extra}}>'')"
    unfolding sample_run by (simp add: birth_row_def)
  ultimately show ?thesis by simp
qed

end
